theory Spec2Isabelle
  imports Main
begin

section \<open>socketserver: data model\<close>

text \<open>
  The embedding follows \<^verbatim>\<open>generic/socketserver.c\<close>. The header
  \<^verbatim>\<open>socketserver.h\<close> is not part of the sources, so the structs are read off
  the fields the C file uses. C \<^verbatim>\<open>int\<close> values (ports, descriptors, flags) are
  modelled as \<open>int\<close>: the code only compares and stores them. Pointers to
  host objects (\<^verbatim>\<open>Tcl_Interp *\<close>, \<^verbatim>\<open>Tcl_ThreadId\<close>, \<^verbatim>\<open>Tcl_Channel\<close>)
  are handles of type \<open>nat\<close> with \<open>0\<close> for \<^verbatim>\<open>NULL\<close>; the
  \<^verbatim>\<open>const char *callback\<close> is a \<open>string option\<close> with \<open>None\<close> for
  \<^verbatim>\<open>NULL\<close>. The linked list hanging off \<^verbatim>\<open>clientData->ports\<close> is a list
  in link order; a \<^verbatim>\<open>socketserver_port *\<close> is the position of the node in
  that list (nodes are only ever appended, never unlinked).
\<close>

record socketserver_thread_args =
  targs_in :: int
  targs_port :: int

record socketserver_port =
  targs :: socketserver_thread_args
  out :: int
  channel :: nat
  have_channel :: int
  active :: int
  interp :: nat
  threadId :: nat
  callback :: "string option"
  scriptLen :: nat

record socketserver_objectClientData =
  object_magic :: int
  ports :: "socketserver_port list"

section \<open>The port registry: \<^verbatim>\<open>socketserver_getPort\<close>\<close>

definition port_of :: "socketserver_port \<Rightarrow> int" where
  "port_of p = targs_port (targs p)"

text \<open>Lines 260-264: port 0 stands for the port of the first node, if there is one.\<close>

definition default_port :: "socketserver_port list \<Rightarrow> int \<Rightarrow> int" where
  "default_port ps port =
     (if port = 0 then (case ps of [] \<Rightarrow> port | p # _ \<Rightarrow> targs_port (targs p)) else port)"

text \<open>Lines 267-273: the search loop; \<open>i\<close> is the position of the node \<open>p\<close> points to.\<close>

fun search_port :: "nat \<Rightarrow> socketserver_port list \<Rightarrow> int \<Rightarrow> nat option" where
  "search_port i [] port = None"
| "search_port i (p # ps) port =
     (if targs_port (targs p) = port then Some i else search_port (Suc i) ps port)"

text \<open>Lines 294-296: \<^verbatim>\<open>memset(p, 0, ...)\<close>, then the port and the marker \<open>in = -1\<close>.\<close>

definition zeroed_port :: socketserver_port where
  "zeroed_port =
     \<lparr> targs = \<lparr> targs_in = 0, targs_port = 0 \<rparr>, out = 0, channel = 0, have_channel = 0,
       active = 0, interp = 0, threadId = 0, callback = None, scriptLen = 0 \<rparr>"

definition new_port :: "int \<Rightarrow> socketserver_port" where
  "new_port port = zeroed_port \<lparr> targs := \<lparr> targs_in = - 1, targs_port = port \<rparr> \<rparr>"

text \<open>Lines 281-292: walk to the last node and link a fresh one, or allocate the head.\<close>

definition link_port :: "socketserver_port list \<Rightarrow> socketserver_port \<Rightarrow> socketserver_port list" where
  "link_port ps n = (if ps \<noteq> [] then butlast ps @ [last ps, n] else [n])"

definition socketserver_getPort ::
  "socketserver_objectClientData \<Rightarrow> int \<Rightarrow> bool \<Rightarrow> nat option \<times> socketserver_objectClientData" where
  "socketserver_getPort clientData port0 allocate =
     (let port = default_port (ports clientData) port0 in
      case search_port 0 (ports clientData) port of
        Some i \<Rightarrow> (Some i, clientData)
      | None \<Rightarrow>
          if \<not> allocate then (None, clientData)
          else (Some (length (ports clientData)),
                clientData \<lparr> ports := link_port (ports clientData) (new_port port) \<rparr>))"

section \<open>The environment: kernel and Tcl host\<close>

text \<open>
  Everything the C file calls but does not define is kept outside the functions under
  study. What a call returns is an argument of the model (\<open>errno\<close> values, the
  results of \<^verbatim>\<open>socketpair\<close>, \<^verbatim>\<open>pthread_create\<close>, \<^verbatim>\<open>bind\<close>,
  \<^verbatim>\<open>accept\<close>, \<^verbatim>\<open>sendmsg\<close>); what a call changes is a field of the
  record \<open>world\<close>. A \<^verbatim>\<open>SOCK_STREAM\<close> socket pair is a queue of messages, each
  message being the list of control headers that travel with its one data byte.

  A descriptor is a number of the descriptor table of the process, which maps it to an
  open file; the open files are numbered in the order they were opened. A control
  message in flight holds open files, not numbers: \<^verbatim>\<open>sendmsg\<close> looks the
  descriptor up in the table, and \<^verbatim>\<open>recvmsg\<close> gives each file it hands over the
  lowest number that is free in the table at that moment.
\<close>

datatype errno = EINTR | EAGAIN | EBADF | ECONNRESET | ENOTCONN | EMFILE | ENOMEM

datatype cmsg_level = SOL_SOCKET | IPPROTO_IP

datatype cmsg_type = SCM_RIGHTS | SCM_CREDENTIALS

record 'a cmsghdr =
  cmsg_level :: cmsg_level
  cmsg_type :: cmsg_type
  cmsg_data :: "'a list"

type_synonym 'a message = "'a cmsghdr list"

record sockpair =
  wr_end :: int
  rd_end :: int
  pending :: "nat message list"

datatype thread_phase = Created | Accepting | Exited int

record acceptor =
  thread_arg :: nat
  thread_sock :: int
  phase :: thread_phase

datatype stderr_line = DebugMsg string | SendingFd int

record world =
  cdata :: socketserver_objectClientData
  sockpairs :: "sockpair list"
  nonblocking :: "int list"
  closed :: "int list"
  threads :: "acceptor list"
  tcl_channels :: "int list"
  registered :: "(nat \<times> nat) list"
  handlers :: "(nat \<times> nat) list"
  events :: "(nat \<times> nat) list"
  errorInfo :: "(nat \<times> string) list"
  evals :: "(nat \<times> string) list"
  stderr :: "stderr_line list"
  fdtable :: "(int \<times> nat) list"
  files :: nat
  sent :: "(int \<times> nat) list"
  installed :: "(int \<times> int \<times> nat) list"

text \<open>
  The fields of \<open>world\<close>: the registry; the socket pairs the kernel holds; the
  descriptors switched to \<^verbatim>\<open>O_NONBLOCK\<close>; the descriptors closed by an
  acceptor; the threads made by \<^verbatim>\<open>pthread_create\<close> (each with the position of
  the registry node whose \<^verbatim>\<open>targs\<close> it was given); the descriptors wrapped by
  \<^verbatim>\<open>Tcl_MakeFileChannel\<close> (the \<open>k\<close>-th channel made has handle \<open>k\<close>, counted
  from 1); the calls of \<^verbatim>\<open>Tcl_RegisterChannel\<close> (interpreter, channel); the
  handlers installed by \<^verbatim>\<open>Tcl_CreateChannelHandler\<close> (channel, client data);
  the events queued by \<^verbatim>\<open>Tcl_ThreadQueueEvent\<close> (thread, event data); the
  messages given to \<^verbatim>\<open>Tcl_AddErrorInfo\<close>; the scripts given to
  \<^verbatim>\<open>Tcl_Eval\<close>; what was written to \<^verbatim>\<open>stderr\<close>; the descriptor table
  (most recent entry first); the number of files opened so far; the files
  \<^verbatim>\<open>sendmsg\<close> has put in flight (socket written, file); and the descriptors
  \<^verbatim>\<open>recvmsg\<close> has installed (socket read, descriptor, file).
\<close>

record host =
  SOCKETSERVER_OBJECT_MAGIC :: int
  SOCKETSERVER_DEBUG :: bool
  Linux :: bool
  Tcl_GetChannelName :: "int \<Rightarrow> string"
  Tcl_Eval :: "nat \<Rightarrow> string \<Rightarrow> world \<Rightarrow> int \<times> world"

text \<open>
  The parameters of the build and of the Tcl library: the magic constant of the missing
  header, the two \<^verbatim>\<open>#ifdef\<close> symbols, the name Tcl gives to the channel made
  for a descriptor (\<open>[]\<close> for \<^verbatim>\<open>NULL\<close> or the empty string), and what
  evaluating a script in an interpreter returns and does.
\<close>

datatype fault = ObjvOutOfRange | BadPointer | NullCallback | ScriptOverrun | Blocked

definition TCL_OK :: int where
  "TCL_OK = 0"

definition TCL_ERROR :: int where
  "TCL_ERROR = 1"

record tcl_obj =
  obj_str :: string
  obj_int :: "int option"

text \<open>
  A \<^verbatim>\<open>Tcl_Obj\<close> argument: its string (\<^verbatim>\<open>Tcl_GetString\<close>) and what
  \<^verbatim>\<open>Tcl_GetIntFromObj\<close> makes of it (\<open>None\<close> when that call fails).
\<close>

record os_results =
  socketpair_res :: "(nat \<times> nat) option"
  pthread_create_res :: int

record startup_results =
  socket_res :: int
  bind_res :: int
  listen_res :: int

definition Tcl_AddErrorInfo :: "nat \<Rightarrow> string \<Rightarrow> world \<Rightarrow> world" where
  "Tcl_AddErrorInfo ip msg w = w \<lparr> errorInfo := errorInfo w @ [(ip, msg)] \<rparr>"

definition Tcl_MakeFileChannel :: "int \<Rightarrow> world \<Rightarrow> nat \<times> world" where
  "Tcl_MakeFileChannel fd w =
     (Suc (length (tcl_channels w)), w \<lparr> tcl_channels := tcl_channels w @ [fd] \<rparr>)"

definition Tcl_RegisterChannel :: "nat \<Rightarrow> nat \<Rightarrow> world \<Rightarrow> world" where
  "Tcl_RegisterChannel ip chan w = w \<lparr> registered := registered w @ [(ip, chan)] \<rparr>"

definition Tcl_CreateChannelHandler :: "nat \<Rightarrow> nat \<Rightarrow> world \<Rightarrow> world" where
  "Tcl_CreateChannelHandler chan d w = w \<lparr> handlers := handlers w @ [(chan, d)] \<rparr>"

definition Tcl_ThreadQueueEvent :: "nat \<Rightarrow> nat \<Rightarrow> world \<Rightarrow> world" where
  "Tcl_ThreadQueueEvent tid d w = w \<lparr> events := events w @ [(tid, d)] \<rparr>"

definition Tcl_Eval_call :: "host \<Rightarrow> nat \<Rightarrow> string \<Rightarrow> world \<Rightarrow> int \<times> world" where
  "Tcl_Eval_call h ip script w = Tcl_Eval h ip script (w \<lparr> evals := evals w @ [(ip, script)] \<rparr>)"

definition set_nonblocking :: "int \<Rightarrow> world \<Rightarrow> world" where
  "set_nonblocking fd w = w \<lparr> nonblocking := fd # nonblocking w \<rparr>"

section \<open>The kernel's side of the calls\<close>

text \<open>
  The descriptor table. A call that opens a file (\<^verbatim>\<open>socket\<close>,
  \<^verbatim>\<open>socketpair\<close>, \<^verbatim>\<open>accept\<close>) returns a number for it; which number is an
  argument of the model, and the number returned was free before the call.
  \<^verbatim>\<open>close\<close> frees the number.
\<close>

definition lowest_free :: "(int \<times> nat) list \<Rightarrow> int" where
  "lowest_free tbl = int (hd (filter (\<lambda>n. int n \<notin> fst ` set tbl) [0..<Suc (length tbl)]))"

definition new_descriptor :: "int \<Rightarrow> world \<Rightarrow> world" where
  "new_descriptor fd w =
     w \<lparr> fdtable := (fd, files w) # filter (\<lambda>e. fst e \<noteq> fd) (fdtable w), files := Suc (files w) \<rparr>"

definition close_descriptor :: "int \<Rightarrow> world \<Rightarrow> world" where
  "close_descriptor fd w = w \<lparr> fdtable := filter (\<lambda>e. fst e \<noteq> fd) (fdtable w) \<rparr>"

text \<open>The queues of the socket pairs.\<close>

fun enqueue :: "int \<Rightarrow> nat message \<Rightarrow> sockpair list \<Rightarrow> sockpair list" where
  "enqueue sock m [] = []"
| "enqueue sock m (sp # sps) =
     (if wr_end sp = sock then sp \<lparr> pending := pending sp @ [m] \<rparr> # sps
      else sp # enqueue sock m sps)"

fun readable_pair :: "int \<Rightarrow> sockpair list \<Rightarrow> sockpair option" where
  "readable_pair sock [] = None"
| "readable_pair sock (sp # sps) = (if rd_end sp = sock then Some sp else readable_pair sock sps)"

fun dequeue :: "int \<Rightarrow> sockpair list \<Rightarrow> sockpair list" where
  "dequeue sock [] = []"
| "dequeue sock (sp # sps) =
     (if rd_end sp = sock then sp \<lparr> pending := tl (pending sp) \<rparr> # sps
      else sp # dequeue sock sps)"

text \<open>
  What \<^verbatim>\<open>recvmsg\<close> does with the files of a message: each file of each
  \<^verbatim>\<open>SCM_RIGHTS\<close> header gets the lowest free number, one after the other, and the
  header the program sees holds these numbers. The result is the message as received
  and the table entries made, in order.
\<close>

fun install_files :: "nat list \<Rightarrow> (int \<times> nat) list \<Rightarrow> (int \<times> nat) list" where
  "install_files [] tbl = []"
| "install_files (f # fs) tbl =
     (lowest_free tbl, f) # install_files fs ((lowest_free tbl, f) # tbl)"

fun install_rights :: "nat message \<Rightarrow> (int \<times> nat) list \<Rightarrow> int message \<times> (int \<times> nat) list" where
  "install_rights [] tbl = ([], [])"
| "install_rights (header # hs) tbl =
     (if cmsg_level header = SOL_SOCKET \<and> cmsg_type header = SCM_RIGHTS then
        (let new = install_files (cmsg_data header) tbl;
             (hs', more) = install_rights hs (rev new @ tbl)
         in (\<lparr> cmsg_level = SOL_SOCKET, cmsg_type = SCM_RIGHTS, cmsg_data = map fst new \<rparr> # hs',
             new @ more))
      else
        (let (hs', more) = install_rights hs tbl
         in (\<lparr> cmsg_level = cmsg_level header, cmsg_type = cmsg_type header,
               cmsg_data = map int (cmsg_data header) \<rparr> # hs', more)))"

text \<open>The state after \<^verbatim>\<open>recvmsg\<close> took message \<open>m\<close> from the pair read at \<open>sock\<close>.\<close>

definition taken :: "int \<Rightarrow> nat message \<Rightarrow> world \<Rightarrow> world" where
  "taken sock m w =
     w \<lparr> sockpairs := dequeue sock (sockpairs w),
         fdtable := rev (snd (install_rights m (fdtable w))) @ fdtable w,
         installed := installed w @
           map (\<lambda>e. (sock, fst e, snd e)) (snd (install_rights m (fdtable w))) \<rparr>"

datatype recvmsg_result = RecvFail errno | RecvMsg "int message"

definition recvmsg :: "errno option \<Rightarrow> int \<Rightarrow> world \<Rightarrow> fault + (recvmsg_result \<times> world)" where
  "recvmsg flt sock w =
     (case flt of
        Some e \<Rightarrow> Inr (RecvFail e, w)
      | None \<Rightarrow>
          (case readable_pair sock (sockpairs w) of
             None \<Rightarrow> Inr (RecvFail EBADF, w)
           | Some sp \<Rightarrow>
               (case pending sp of
                  [] \<Rightarrow> if sock \<in> set (nonblocking w) then Inr (RecvFail EAGAIN, w) else Inl Blocked
                | m # _ \<Rightarrow> Inr (RecvMsg (fst (install_rights m (fdtable w))), taken sock m w))))"

text \<open>
  \<^verbatim>\<open>recvmsg\<close> fails with the injected error \<open>flt\<close> if there is one; otherwise it
  takes the oldest message of the pair whose read end is \<open>sock\<close>. With nothing
  pending a non-blocking socket fails with \<^verbatim>\<open>EAGAIN\<close>, and a blocking one does
  not return.
\<close>

definition fd_message :: "'a \<Rightarrow> 'a message" where
  "fd_message fd = [\<lparr> cmsg_level = SOL_SOCKET, cmsg_type = SCM_RIGHTS, cmsg_data = [fd] \<rparr>]"

text \<open>
  \<^verbatim>\<open>sendmsg\<close> of the message \<^verbatim>\<open>send_fd\<close> builds for descriptor \<open>fd\<close>. It
  fails when \<open>fd\<close> is not open or \<open>sock\<close> is not the write end of a socket pair;
  otherwise it returns \<open>n\<close>, what the environment makes the call return, and when that
  is positive the file of \<open>fd\<close> is in flight.
\<close>

definition sendmsg :: "int \<Rightarrow> int \<Rightarrow> int \<Rightarrow> world \<Rightarrow> int \<times> world" where
  "sendmsg n sock fd w =
     (case map_of (fdtable w) fd of
        None \<Rightarrow> (- 1, w)
      | Some f \<Rightarrow>
          if sock \<notin> wr_end ` set (sockpairs w) then (- 1, w)
          else if 0 < n then
            (n, w \<lparr> sockpairs := enqueue sock (fd_message f) (sockpairs w),
                    sent := sent w @ [(sock, f)] \<rparr>)
          else (n, w))"

section \<open>\<^verbatim>\<open>send_fd\<close> and \<^verbatim>\<open>recv_fd\<close>\<close>

text \<open>Lines 39-61.\<close>

definition send_fd :: "int \<Rightarrow> int \<Rightarrow> int \<Rightarrow> world \<Rightarrow> int \<times> world" where
  "send_fd sock fd n w = (let (r, w') = sendmsg n sock fd w in (if r > 0 then 0 else 1, w'))"

text \<open>Lines 85-96: the first \<^verbatim>\<open>SCM_RIGHTS\<close> header that holds a descriptor.\<close>

fun scan_headers :: "int message \<Rightarrow> int" where
  "scan_headers [] = - 1"
| "scan_headers (header # hs) =
     (if cmsg_level header = SOL_SOCKET \<and> cmsg_type header = SCM_RIGHTS
      then (case cmsg_data header of [] \<Rightarrow> scan_headers hs | fd # _ \<Rightarrow> fd)
      else scan_headers hs)"

definition recv_fd :: "errno option \<Rightarrow> int \<Rightarrow> world \<Rightarrow> fault + (int \<times> world)" where
  "recv_fd flt sock w =
     (case recvmsg flt sock w of
        Inl f \<Rightarrow> Inl f
      | Inr (RecvFail e, w') \<Rightarrow> Inr (- 1, w')
      | Inr (RecvMsg m, w') \<Rightarrow> Inr (scan_headers m, w'))"

section \<open>The acceptor thread: \<^verbatim>\<open>socketserver_thread\<close>\<close>

definition debug :: "host \<Rightarrow> string \<Rightarrow> world \<Rightarrow> world" where
  "debug h msg w = (if SOCKETSERVER_DEBUG h then w \<lparr> stderr := stderr w @ [DebugMsg msg] \<rparr> else w)"

definition set_phase :: "nat \<Rightarrow> thread_phase \<Rightarrow> world \<Rightarrow> world" where
  "set_phase t ph w = w \<lparr> threads := (threads w)[t := (threads w ! t) \<lparr> phase := ph \<rparr>] \<rparr>"

definition read_sock :: "nat \<Rightarrow> world \<Rightarrow> world" where
  "read_sock t w =
     w \<lparr> threads := (threads w)[t := (threads w ! t)
           \<lparr> thread_sock := targs_in (targs (ports (cdata w) ! thread_arg (threads w ! t))) \<rparr>] \<rparr>"

text \<open>
  Lines 133-159, the part of the thread before the loop, run by thread \<open>t\<close> once:
  \<^verbatim>\<open>sock = targs->in\<close> is read, a failed \<^verbatim>\<open>socket\<close> is only reported to \<^verbatim>\<open>debug\<close>, a failed
  \<^verbatim>\<open>bind\<close> ends the thread with value 1, and the result of \<^verbatim>\<open>listen\<close>
  is not looked at. A descriptor returned by \<^verbatim>\<open>socket\<close> is open from then on.
\<close>

definition socketserver_thread_startup :: "host \<Rightarrow> startup_results \<Rightarrow> nat \<Rightarrow> world \<Rightarrow> world" where
  "socketserver_thread_startup h r t w =
     (let w0 = (if 0 \<le> socket_res r then new_descriptor (socket_res r) (read_sock t w)
                else read_sock t w);
          w1 = (if socket_res r = - 1 then debug h ''Could not create socket'' w0 else w0);
          w2 = debug h ''Socket created'' w1
      in if bind_res r < 0 then set_phase t (Exited 1) (debug h ''bind failed'' w2)
         else set_phase t Accepting
                (debug h ''Waiting for incoming connections...'' (debug h ''bind done'' w2)))"

text \<open>
  Lines 162-184, one pass through the body of \<^verbatim>\<open>while (1)\<close>: \<open>client_sock\<close>
  and \<open>err\<close> are what \<^verbatim>\<open>accept\<close> returned and left in \<^verbatim>\<open>errno\<close>,
  \<open>n\<close> is what \<^verbatim>\<open>sendmsg\<close> returns if it is called and can send, \<open>sock\<close> is
  the write end read at line 134. A descriptor returned by \<^verbatim>\<open>accept\<close> is open for
  a new file, the connection. Each branch says how control leaves the body: to the next
  pass (\<open>Continue\<close>), or out of the thread function with a value (\<open>Return\<close>, which
  is what line 186 would do).
\<close>

datatype loop_ctl = Continue | Return int

definition accepted :: "int \<times> errno \<Rightarrow> world \<Rightarrow> world" where
  "accepted a w = (if 0 \<le> fst a then new_descriptor (fst a) w else w)"

definition accept_body :: "host \<Rightarrow> int \<Rightarrow> int \<times> errno \<Rightarrow> int \<Rightarrow> world \<Rightarrow> loop_ctl \<times> world" where
  "accept_body h sock a n w =
     (let client_sock = fst a; err = snd a; w0 = accepted a w in
      if client_sock < 0 \<and> err \<noteq> EINTR then (Continue, debug h ''accept failed'' w0)
      else if client_sock \<noteq> - 1 then
        (let w1 = debug h ''Connection accepted'' w0;
             w2 = w1 \<lparr> stderr := stderr w1 @ [SendingFd client_sock] \<rparr>;
             (rc, w3) = send_fd sock client_sock n w2;
             w4 = (if rc \<noteq> 0 then debug h ''Send fd failed'' w3 else debug h ''Sent fd.'' w3)
         in (Continue,
             if Linux h then close_descriptor client_sock (w4 \<lparr> closed := closed w4 @ [client_sock] \<rparr>)
             else w4))
      else (Continue, w0))"

text \<open>
  The loop run over a finite prefix of the results \<^verbatim>\<open>accept\<close> will give: it goes
  on while the body says \<open>Continue\<close>.
\<close>

fun accept_loop :: "host \<Rightarrow> int \<Rightarrow> ((int \<times> errno) \<times> int) list \<Rightarrow> world \<Rightarrow> loop_ctl \<times> world" where
  "accept_loop h sock [] w = (Continue, w)"
| "accept_loop h sock ((a, n) # rs) w =
     (case accept_body h sock a n w of
        (Continue, w') \<Rightarrow> accept_loop h sock rs w'
      | (Return v, w') \<Rightarrow> (Return v, w'))"

section \<open>The consumer: \<^verbatim>\<open>socketserver_EventProc\<close> and \<^verbatim>\<open>socketserver_readable\<close>\<close>

definition set_active :: "nat \<Rightarrow> int \<Rightarrow> world \<Rightarrow> world" where
  "set_active d v w =
     w \<lparr> cdata := (cdata w) \<lparr> ports := (ports (cdata w))[d := (ports (cdata w) ! d) \<lparr> active := v \<rparr>] \<rparr> \<rparr>"

text \<open>
  Lines 216-234, after the guarded section: the descriptor is wrapped and registered,
  and the callback script is built in a buffer of \<^verbatim>\<open>scriptLen\<close> bytes and
  evaluated. Copying from a \<^verbatim>\<open>NULL\<close> callback or past the end of the buffer
  is a fault.
\<close>

definition deliver :: "host \<Rightarrow> nat \<Rightarrow> int \<Rightarrow> world \<Rightarrow> fault + (int \<times> world)" where
  "deliver h d fd w =
     (let data = ports (cdata w) ! d;
          (chan, w1) = Tcl_MakeFileChannel fd w;
          w2 = Tcl_RegisterChannel (interp data) chan w1;
          channel_name = Tcl_GetChannelName h fd
      in if channel_name = [] then
           Inr (TCL_ERROR,
                Tcl_AddErrorInfo (interp data)
                  ''Failed to get channel name for ancil_recv_fd file descriptor.'' w2)
         else (case callback data of
                 None \<Rightarrow> Inl NullCallback
               | Some cb \<Rightarrow>
                   if scriptLen data < length cb + 1 + length channel_name + 1 then Inl ScriptOverrun
                   else Inr (Tcl_Eval_call h (interp data) (cb @ '' '' @ channel_name) w2)))"

text \<open>
  Lines 193-235. \<open>d\<close> is \<^verbatim>\<open>evPtr->data\<close>, \<open>flt\<close> the error injected into
  \<^verbatim>\<open>recvmsg\<close>. The mutex is held from the test of \<^verbatim>\<open>active\<close> to the end of
  the receive.
\<close>

definition socketserver_EventProc :: "host \<Rightarrow> errno option \<Rightarrow> nat \<Rightarrow> world \<Rightarrow> fault + (int \<times> world)" where
  "socketserver_EventProc h flt d w =
     (if length (ports (cdata w)) \<le> d then Inl BadPointer
      else if active (ports (cdata w) ! d) = 0 then Inr (TCL_OK, w)
      else
        (case recv_fd flt (out (ports (cdata w) ! d)) (set_active d 0 w) of
           Inl f \<Rightarrow> Inl f
         | Inr (fd, w') \<Rightarrow>
             if fd = - 1 then Inr (TCL_OK, set_active d 1 w')
             else deliver h d fd w'))"

text \<open>Lines 240-255: queue an event for the thread that registered the consumer.\<close>

definition socketserver_readable :: "nat \<Rightarrow> world \<Rightarrow> fault + world" where
  "socketserver_readable d w =
     (if length (ports (cdata w)) \<le> d then Inl BadPointer
      else Inr (Tcl_ThreadQueueEvent (threadId (ports (cdata w) ! d)) d w))"

section \<open>The command: \<^verbatim>\<open>socketserverObjCmd\<close>\<close>

definition update_port :: "nat \<Rightarrow> (socketserver_port \<Rightarrow> socketserver_port) \<Rightarrow> world \<Rightarrow> world" where
  "update_port d f w =
     w \<lparr> cdata := (cdata w) \<lparr> ports := (ports (cdata w))[d := f (ports (cdata w) ! d)] \<rparr> \<rparr>"

text \<open>
  Lines 342-367, the \<^verbatim>\<open>server\<close> case after its arguments are parsed. The socket
  pair and the thread are made only when the node still has \<open>in = -1\<close>. A created
  thread has not read its socket yet (\<open>thread_sock = 0\<close> until it starts). The two
  descriptors \<^verbatim>\<open>socketpair\<close> returns are open from then on.
\<close>

definition server_register :: "nat \<Rightarrow> os_results \<Rightarrow> int \<Rightarrow> world \<Rightarrow> fault + (int \<times> world)" where
  "server_register ip os port w =
     (case socketserver_getPort (cdata w) port True of
        (None, cd) \<Rightarrow> Inl BadPointer
      | (Some d, cd) \<Rightarrow>
          (let w1 = w \<lparr> cdata := cd \<rparr> in
           if targs_in (targs (ports cd ! d)) = - 1 then
             (case socketpair_res os of
                None \<Rightarrow>
                  Inr (TCL_ERROR, Tcl_AddErrorInfo ip ''Failed to create thread to read socketpipe'' w1)
              | Some (s0, s1) \<Rightarrow>
                  (let w2 = update_port d
                              (\<lambda>p. p \<lparr> targs := (targs p) \<lparr> targs_in := int s0 \<rparr>, out := int s1 \<rparr>)
                              ((new_descriptor (int s1) (new_descriptor (int s0) w1))
                                 \<lparr> sockpairs := sockpairs w1 @
                                     [\<lparr> wr_end = int s0, rd_end = int s1, pending = [] \<rparr>] \<rparr>)
                   in if pthread_create_res os \<noteq> 0 then
                        Inr (TCL_ERROR,
                             Tcl_AddErrorInfo ip ''Failed to create thread to read socketpipe'' w2)
                      else Inr (TCL_OK,
                                w2 \<lparr> threads := threads w2 @
                                       [\<lparr> thread_arg = d, thread_sock = 0, phase = Created \<rparr>] \<rparr>)))
           else Inr (TCL_OK, w1)))"

text \<open>
  Lines 385-417, the \<^verbatim>\<open>client\<close> case after its arguments are parsed; \<open>ip\<close> and
  \<open>tid\<close> are the interpreter and the thread the command runs in.
\<close>

definition client_register :: "nat \<Rightarrow> nat \<Rightarrow> int \<Rightarrow> string \<Rightarrow> world \<Rightarrow> fault + (int \<times> world)" where
  "client_register ip tid port cb w =
     (case socketserver_getPort (cdata w) port False of
        (None, cd) \<Rightarrow>
          Inr (TCL_ERROR, Tcl_AddErrorInfo ip ''Could not find socketserver structure for port'' w)
      | (Some d, cd) \<Rightarrow>
          (let w1 = update_port d
                      (\<lambda>p. p \<lparr> interp := ip, threadId := tid, callback := Some cb,
                               scriptLen := length cb + 80 \<rparr>) (w \<lparr> cdata := cd \<rparr>);
               w2 = set_nonblocking (out (ports (cdata w1) ! d)) w1;
               w3 = (if have_channel (ports (cdata w2) ! d) = 0 then
                       (let (chan, w') = Tcl_MakeFileChannel (out (ports (cdata w2) ! d)) w2;
                            w'' = update_port d (\<lambda>p. p \<lparr> channel := chan, have_channel := 0 \<rparr>) w'
                        in Tcl_CreateChannelHandler chan d w'')
                     else w2);
               w4 = set_active d 1 w3
           in (case socketserver_readable d w4 of
                 Inl f \<Rightarrow> Inl f
               | Inr w5 \<Rightarrow> Inr (TCL_OK, w5))))"

text \<open>
  Lines 301-425. \<open>objv\<close> are the words of the command, \<open>objv ! 0\<close> being the command
  name; reading \<^verbatim>\<open>objv[1]\<close> of a one-word command is out of range.
  \<^verbatim>\<open>Tcl_GetIndexFromObj\<close> with \<^verbatim>\<open>TCL_EXACT\<close> accepts the two option names
  only. The messages \<^verbatim>\<open>Tcl_GetIndexFromObj\<close>, \<^verbatim>\<open>Tcl_GetIntFromObj\<close> and
  \<^verbatim>\<open>Tcl_WrongNumArgs\<close> leave in the interpreter are the host's and not recorded.
\<close>

definition socketserverObjCmd ::
  "host \<Rightarrow> nat \<Rightarrow> nat \<Rightarrow> os_results \<Rightarrow> tcl_obj list \<Rightarrow> world \<Rightarrow> fault + (int \<times> world)" where
  "socketserverObjCmd h ip tid os objv w =
     (let objc = length objv in
      if objc < 2 then Inl ObjvOutOfRange
      else if obj_str (objv ! 1) \<noteq> ''client'' \<and> obj_str (objv ! 1) \<noteq> ''server'' then Inr (TCL_ERROR, w)
      else if object_magic (cdata w) \<noteq> SOCKETSERVER_OBJECT_MAGIC h then
        Inr (TCL_ERROR, Tcl_AddErrorInfo ip ''Incorrect magic value on internal state'' w)
      else if obj_str (objv ! 1) = ''server'' then
        (if objc \<noteq> 3 then Inr (TCL_ERROR, w)
         else (case obj_int (objv ! 2) of
                 None \<Rightarrow> Inr (TCL_ERROR, Tcl_AddErrorInfo ip ''problem getting port number as integer'' w)
               | Some port \<Rightarrow> server_register ip os port w))
      else
        (if objc = 5 then
           (case obj_int (objv ! 3) of
              None \<Rightarrow> Inr (TCL_ERROR, Tcl_AddErrorInfo ip ''problem getting port number as integer'' w)
            | Some port \<Rightarrow> client_register ip tid port (obj_str (objv ! 4)) w)
         else if objc = 3 then client_register ip tid 0 (obj_str (objv ! 2)) w
         else Inr (TCL_ERROR, w)))"

section \<open>The system as a whole\<close>

text \<open>
  What can happen, one atomic step at a time: a \<^verbatim>\<open>socketserver\<close> command is run;
  a created thread runs up to its loop; a thread in its loop gets a result from
  \<^verbatim>\<open>accept\<close> and runs the body of the loop once, leaving the loop if the body says
  so; Tcl finds a watched channel readable and calls the installed
  handler; Tcl services a queued event. An event stays available after it was serviced,
  so every order and every repetition of notifications that Tcl may produce is a
  schedule of this model.

  A call is one step. The commands and the guarded part of the drain handler hold the
  one mutex, and an acceptor thread shares nothing with them but its socket pair, whose
  operations the kernel serialises; what this granularity leaves out is a
  \<^verbatim>\<open>client\<close> command of a second thread running between the release of the mutex
  and the end of a drain handler.
\<close>

datatype action =
    Command nat nat os_results "tcl_obj list"
  | ThreadStart nat startup_results
  | ThreadAccept nat "int \<times> errno" int
  | ChannelReadable nat
  | ServiceEvent nat "errno option"

definition step :: "host \<Rightarrow> action \<Rightarrow> world \<Rightarrow> fault + world" where
  "step h a w =
     (case a of
        Command ip tid os objv \<Rightarrow>
          (case socketserverObjCmd h ip tid os objv w of Inl f \<Rightarrow> Inl f | Inr (rc, w') \<Rightarrow> Inr w')
      | ThreadStart t r \<Rightarrow>
          (if t < length (threads w) \<and> phase (threads w ! t) = Created \<and>
              thread_arg (threads w ! t) < length (ports (cdata w))
           then Inr (socketserver_thread_startup h r t w) else Inr w)
      | ThreadAccept t res n \<Rightarrow>
          (if t < length (threads w) \<and> phase (threads w ! t) = Accepting
           then (case accept_body h (thread_sock (threads w ! t)) res n w of
                   (Continue, w') \<Rightarrow> Inr w'
                 | (Return v, w') \<Rightarrow> Inr (set_phase t (Exited v) w'))
           else Inr w)
      | ChannelReadable k \<Rightarrow>
          (if k < length (handlers w) then socketserver_readable (snd (handlers w ! k)) w else Inr w)
      | ServiceEvent d flt \<Rightarrow>
          (if d \<in> snd ` set (events w)
           then (case socketserver_EventProc h flt d w of Inl f \<Rightarrow> Inl f | Inr (rc, w') \<Rightarrow> Inr w')
           else Inr w))"

fun run :: "host \<Rightarrow> action list \<Rightarrow> world \<Rightarrow> fault + world" where
  "run h [] w = Inr w"
| "run h (a # as) w = (case step h a w of Inl f \<Rightarrow> Inl f | Inr w' \<Rightarrow> run h as w')"

definition initial_world :: "int \<Rightarrow> world" where
  "initial_world magic =
     \<lparr> cdata = \<lparr> object_magic = magic, ports = [] \<rparr>, sockpairs = [], nonblocking = [],
       closed = [], threads = [], tcl_channels = [], registered = [], handlers = [],
       events = [], errorInfo = [], evals = [], stderr = [],
       fdtable = [(2, 2), (1, 1), (0, 0)], files = 3, sent = [], installed = [] \<rparr>"

text \<open>
  At the start the registry is empty and the process has its three standard
  descriptors open.
\<close>

section \<open>Schedules, callback scripts and what commands preserve\<close>

text \<open>
  Kinds of steps: any command; a well-formed \<^verbatim>\<open>server\<close> command for a given port;
  a command whose option is \<^verbatim>\<open>client\<close>.
\<close>

definition is_command :: "action \<Rightarrow> bool" where
  "is_command a = (case a of Command ip tid os objv \<Rightarrow> True | _ \<Rightarrow> False)"

definition is_server_cmd :: "int \<Rightarrow> action \<Rightarrow> bool" where
  "is_server_cmd port a =
     (case a of
        Command ip tid os objv \<Rightarrow>
          length objv = 3 \<and> obj_str (objv ! 1) = ''server'' \<and> obj_int (objv ! 2) = Some port
      | _ \<Rightarrow> False)"

definition is_client_cmd :: "action \<Rightarrow> bool" where
  "is_client_cmd a =
     (case a of Command ip tid os objv \<Rightarrow> 2 \<le> length objv \<and> obj_str (objv ! 1) = ''client''
      | _ \<Rightarrow> False)"

text \<open>
  What a callback script may do to the state of this extension: run
  \<^verbatim>\<open>socketserver\<close> commands, all of them satisfying \<open>P\<close>.
\<close>

definition scripts_run :: "host \<Rightarrow> (action \<Rightarrow> bool) \<Rightarrow> bool" where
  "scripts_run h P \<longleftrightarrow>
     (\<forall>ip script w. \<exists>cs. (\<forall>c \<in> set cs. is_command c \<and> P c) \<and>
                          run h cs w = Inr (snd (Tcl_Eval h ip script w)))"

text \<open>
  The schedule of a thread taking a list of results from \<^verbatim>\<open>accept\<close> and
  \<^verbatim>\<open>sendmsg\<close>.
\<close>

definition accept_actions :: "nat \<Rightarrow> ((int \<times> errno) \<times> int) list \<Rightarrow> action list" where
  "accept_actions t rs = map (\<lambda>(a, n). ThreadAccept t a n) rs"

text \<open>How many ports have their guard armed.\<close>

definition armed_count :: "world \<Rightarrow> int" where
  "armed_count w = sum_list (map (\<lambda>p. if active p = 0 then 0 else 1) (ports (cdata w)))"

text \<open>
  What a command leaves of an entry and of the state. With \<open>rearm\<close> false these are
  the commands other than \<^verbatim>\<open>client\<close>, which never write \<^verbatim>\<open>active\<close>.
\<close>

definition port_kept :: "bool \<Rightarrow> socketserver_port \<Rightarrow> socketserver_port \<Rightarrow> bool" where
  "port_kept rearm p p' \<longleftrightarrow>
     port_of p' = port_of p \<and> have_channel p' = have_channel p \<and>
     (targs_in (targs p) \<noteq> - 1 \<longrightarrow> targs p' = targs p \<and> out p' = out p) \<and>
     (active p' = active p \<or> (rearm \<and> active p' = 1))"

definition world_kept :: "bool \<Rightarrow> world \<Rightarrow> world \<Rightarrow> bool" where
  "world_kept rearm w w' \<longleftrightarrow>
     length (ports (cdata w)) \<le> length (ports (cdata w')) \<and>
     (\<forall>e < length (ports (cdata w)). port_kept rearm (ports (cdata w) ! e) (ports (cdata w') ! e)) \<and>
     (\<forall>e < length (ports (cdata w')). length (ports (cdata w)) \<le> e \<longrightarrow>
        have_channel (ports (cdata w') ! e) = 0 \<and> (\<not> rearm \<longrightarrow> active (ports (cdata w') ! e) = 0)) \<and>
     (\<exists>new. sockpairs w' = sockpairs w @ new) \<and>
     set (nonblocking w) \<subseteq> set (nonblocking w') \<and>
     evals w' = evals w \<and>
     (\<exists>new. handlers w' = handlers w @ new \<and> (\<forall>x \<in> set new. snd x < length (ports (cdata w')))) \<and>
     (\<exists>new. events w' = events w @ new) \<and>
     object_magic (cdata w') = object_magic (cdata w) \<and>
     sent w' = sent w \<and> installed w' = installed w"

text \<open>No entry has the flag \<^verbatim>\<open>have_channel\<close> set, and the magic value is \<open>m\<close>.\<close>

definition flags_clear :: "int \<Rightarrow> world \<Rightarrow> bool" where
  "flags_clear m w \<longleftrightarrow>
     object_magic (cdata w) = m \<and> (\<forall>p \<in> set (ports (cdata w)). have_channel p = 0)"



section \<open>Descriptors, connections and deliveries\<close>

text \<open>
  The environment hands out descriptor numbers. A step is possible for the kernel only
  if the numbers it is given are free: the two of \<^verbatim>\<open>socketpair\<close> (and different
  from each other), the one of \<^verbatim>\<open>socket\<close>, the one of \<^verbatim>\<open>accept\<close>. A run is
  possible if each of its steps is, in the state it starts from.
\<close>

definition is_open :: "int \<Rightarrow> world \<Rightarrow> bool" where
  "is_open fd w \<longleftrightarrow> fd \<in> fst ` set (fdtable w)"

definition numbers_fresh :: "action \<Rightarrow> world \<Rightarrow> bool" where
  "numbers_fresh a w =
     (case a of
        Command ip tid os objv \<Rightarrow>
          (case socketpair_res os of
             None \<Rightarrow> True
           | Some (s0, s1) \<Rightarrow> s0 \<noteq> s1 \<and> \<not> is_open (int s0) w \<and> \<not> is_open (int s1) w)
      | ThreadStart t r \<Rightarrow> \<not> is_open (socket_res r) w
      | ThreadAccept t res n \<Rightarrow> \<not> is_open (fst res) w
      | _ \<Rightarrow> True)"

fun fresh_run :: "host \<Rightarrow> action list \<Rightarrow> world \<Rightarrow> bool" where
  "fresh_run h [] w = True"
| "fresh_run h (a # as) w =
     (numbers_fresh a w \<and> (case step h a w of Inl f \<Rightarrow> True | Inr w' \<Rightarrow> fresh_run h as w'))"

text \<open>A command that is given no socket pair by the operating system.\<close>

definition makes_no_pair :: "action \<Rightarrow> bool" where
  "makes_no_pair a = (case a of Command ip tid os objv \<Rightarrow> socketpair_res os = None | _ \<Rightarrow> True)"

text \<open>
  The open files (connections) sent on a write end, received from a read end, and
  still in flight in a socket pair, each in order of time.
\<close>

definition files_sent :: "int \<Rightarrow> world \<Rightarrow> nat list" where
  "files_sent sock w = map snd (filter (\<lambda>e. fst e = sock) (sent w))"

definition files_received :: "int \<Rightarrow> world \<Rightarrow> nat list" where
  "files_received sock w = map (\<lambda>e. snd (snd e)) (filter (\<lambda>e. fst e = sock) (installed w))"

definition carried :: "nat message \<Rightarrow> nat list" where
  "carried m =
     concat (map cmsg_data
       (filter (\<lambda>header. cmsg_level header = SOL_SOCKET \<and> cmsg_type header = SCM_RIGHTS) m))"

definition files_pending :: "sockpair \<Rightarrow> nat list" where
  "files_pending sp = concat (map carried (pending sp))"

definition pair_ends :: "world \<Rightarrow> int list" where
  "pair_ends w = concat (map (\<lambda>sp. [wr_end sp, rd_end sp]) (sockpairs w))"

text \<open>
  What holds of the kernel's side in every state the system reaches: no number is open
  twice; the ends of the socket pairs are open and all different; every message in
  flight is one made by \<^verbatim>\<open>send_fd\<close>; the descriptors \<^verbatim>\<open>recvmsg\<close> installed
  are not negative, all different, still open and still refer to the file they were
  installed for; for every socket pair, the files received from it followed by the files
  in flight in it are the files sent on it; files were sent in the order they were
  opened; and every registry entry with a channel has its socket pair.
\<close>

definition kernel_ok :: "world \<Rightarrow> bool" where
  "kernel_ok w \<longleftrightarrow>
     distinct (map fst (fdtable w)) \<and>
     distinct (pair_ends w) \<and> set (pair_ends w) \<subseteq> fst ` set (fdtable w) \<and>
     (\<forall>sp \<in> set (sockpairs w). \<forall>m \<in> set (pending sp). \<exists>f. m = fd_message f) \<and>
     distinct (map (\<lambda>e. fst (snd e)) (installed w)) \<and>
     (\<forall>e \<in> set (installed w). 0 \<le> fst (snd e) \<and> snd e \<in> set (fdtable w) \<and>
                                 fst e \<in> set (pair_ends w)) \<and>
     (\<forall>sp \<in> set (sockpairs w).
        files_received (rd_end sp) w @ files_pending sp = files_sent (wr_end sp) w) \<and>
     sorted_wrt (<) (map snd (sent w)) \<and>
     (\<forall>e \<in> set (sent w). snd e < files w \<and> fst e \<in> set (pair_ends w)) \<and>
     (\<forall>p \<in> set (ports (cdata w)). targs_in (targs p) \<noteq> - 1 \<longrightarrow>
        (\<exists>sp \<in> set (sockpairs w). wr_end sp = targs_in (targs p) \<and> rd_end sp = out p))"

text \<open>
  The callback invocations are, one for one and in order, the descriptors installed:
  each script ends with the name of the channel of its descriptor.
\<close>

definition callbacks_match :: "host \<Rightarrow> world \<Rightarrow> bool" where
  "callbacks_match h w \<longleftrightarrow>
     list_all2 (\<lambda>ev e. \<exists>cb. snd ev = cb @ '' '' @ Tcl_GetChannelName h (fst (snd e)))
       (evals w) (installed w)"
section \<open>Concrete states used as examples\<close>

text \<open>
  One server on port 8080 with socket pair (3, 4), as it is after the \<^verbatim>\<open>server\<close>
  command (\<open>served_world\<close>), with its thread in the accept loop and listening on
  descriptor 5 (\<open>accepting_world\<close>), after a \<^verbatim>\<open>client\<close> registration of the
  callback "handler" (\<open>armed_world\<close>), with connections waiting in the channel, each
  accepted as descriptor 6 and closed by the acceptor after sending
  (\<open>pending_world\<close>), and after the first connection, file 6, was delivered as
  descriptor 6 (\<open>drained_world\<close>).
\<close>

definition two_ports :: socketserver_objectClientData where
  "two_ports = \<lparr> object_magic = 0, ports = [new_port 8080, new_port 9090] \<rparr>"

definition word :: "string \<Rightarrow> tcl_obj" where
  "word s = \<lparr> obj_str = s, obj_int = None \<rparr>"

definition number :: "string \<Rightarrow> int \<Rightarrow> tcl_obj" where
  "number s n = \<lparr> obj_str = s, obj_int = Some n \<rparr>"

text \<open>A host that names the channel of descriptor \<open>n\<close> "file" followed by \<open>n\<close> in
  decimal, and whose scripts return 0 and run no command of this extension; it is built
  without \<^verbatim>\<open>SOCKETSERVER_DEBUG\<close>, and \<open>debug_host\<close> is the same built with it.\<close>

function decimal :: "nat \<Rightarrow> string" where
  "decimal n =
     (if n < 10 then [''0123456789'' ! n] else decimal (n div 10) @ [''0123456789'' ! (n mod 10)])"
  by pat_completeness auto
termination
  by (relation "measure id") auto

declare decimal.simps [simp del]

definition file_name :: "int \<Rightarrow> string" where
  "file_name fd = (if fd < 0 then [] else ''file'' @ decimal (nat fd))"

definition quiet_host :: host where
  "quiet_host =
     \<lparr> SOCKETSERVER_OBJECT_MAGIC = 42, SOCKETSERVER_DEBUG = False, Linux = True,
       Tcl_GetChannelName = file_name,
       Tcl_Eval = (\<lambda>ip script w. (0, w)) \<rparr>"

definition debug_host :: host where
  "debug_host = quiet_host \<lparr> SOCKETSERVER_DEBUG := True \<rparr>"

definition os_ok :: "nat \<Rightarrow> nat \<Rightarrow> os_results" where
  "os_ok s0 s1 = \<lparr> socketpair_res = Some (s0, s1), pthread_create_res = 0 \<rparr>"

definition server_8080 :: "tcl_obj list" where
  "server_8080 = [word ''socketserver'', word ''server'', number ''8080'' 8080]"

definition served_world :: world where
  "served_world =
     \<lparr> cdata = \<lparr> object_magic = 42,
                 ports = [\<lparr> targs = \<lparr> targs_in = 3, targs_port = 8080 \<rparr>, out = 4, channel = 0,
                            have_channel = 0, active = 0, interp = 0, threadId = 0,
                            callback = None, scriptLen = 0 \<rparr>] \<rparr>,
       sockpairs = [\<lparr> wr_end = 3, rd_end = 4, pending = [] \<rparr>], nonblocking = [],
       closed = [], threads = [\<lparr> thread_arg = 0, thread_sock = 0, phase = Created \<rparr>],
       tcl_channels = [], registered = [], handlers = [],
       events = [], errorInfo = [], evals = [], stderr = [],
       fdtable = [(4, 4), (3, 3), (2, 2), (1, 1), (0, 0)], files = 5, sent = [], installed = [] \<rparr>"

text \<open>
  The state after a \<^verbatim>\<open>server 8080\<close> command on the empty registry in which
  \<^verbatim>\<open>socketpair\<close> failed: the entry is there, without a channel.
\<close>

definition os_none :: os_results where
  "os_none = \<lparr> socketpair_res = None, pthread_create_res = 0 \<rparr>"


definition bind_refused :: startup_results where
  "bind_refused = \<lparr> socket_res = 5, bind_res = - 1, listen_res = - 1 \<rparr>"

definition startup_ok :: startup_results where
  "startup_ok = \<lparr> socket_res = 5, bind_res = 0, listen_res = 0 \<rparr>"

definition accepting_world :: world where
  "accepting_world =
     served_world \<lparr> threads := [\<lparr> thread_arg = 0, thread_sock = 3, phase = Accepting \<rparr>],
                    fdtable := [(5, 5), (4, 4), (3, 3), (2, 2), (1, 1), (0, 0)], files := 6 \<rparr>"

definition armed_world :: world where
  "armed_world =
     \<lparr> cdata = \<lparr> object_magic = 42,
                 ports = [\<lparr> targs = \<lparr> targs_in = 3, targs_port = 8080 \<rparr>, out = 4, channel = 1,
                            have_channel = 0, active = 1, interp = 1, threadId = 1,
                            callback = Some ''handler'', scriptLen = 87 \<rparr>] \<rparr>,
       sockpairs = [\<lparr> wr_end = 3, rd_end = 4, pending = [] \<rparr>], nonblocking = [4],
       closed = [], threads = [\<lparr> thread_arg = 0, thread_sock = 3, phase = Accepting \<rparr>],
       tcl_channels = [4], registered = [], handlers = [(1, 0)],
       events = [(1, 0)], errorInfo = [], evals = [], stderr = [],
       fdtable = [(5, 5), (4, 4), (3, 3), (2, 2), (1, 1), (0, 0)], files = 6,
       sent = [], installed = [] \<rparr>"

definition pending_world :: "nat list \<Rightarrow> world" where
  "pending_world fs =
     armed_world \<lparr> sockpairs := [\<lparr> wr_end = 3, rd_end = 4, pending = map fd_message fs \<rparr>],
                   closed := replicate (length fs) 6,
                   stderr := replicate (length fs) (SendingFd 6),
                   files := 6 + length fs, sent := map (Pair 3) fs \<rparr>"

definition client_handler :: "tcl_obj list" where
  "client_handler = [word ''socketserver'', word ''client'', word ''handler'']"

definition drained_world :: world where
  "drained_world =
     \<lparr> cdata = \<lparr> object_magic = 42,
                 ports = [\<lparr> targs = \<lparr> targs_in = 3, targs_port = 8080 \<rparr>, out = 4, channel = 1,
                            have_channel = 0, active = 0, interp = 1, threadId = 1,
                            callback = Some ''handler'', scriptLen = 87 \<rparr>] \<rparr>,
       sockpairs = [\<lparr> wr_end = 3, rd_end = 4, pending = [] \<rparr>], nonblocking = [4],
       closed = [6], threads = [\<lparr> thread_arg = 0, thread_sock = 3, phase = Accepting \<rparr>],
       tcl_channels = [4, 6], registered = [(1, 2)], handlers = [(1, 0)],
       events = [(1, 0)], errorInfo = [], evals = [(1, ''handler file6'')],
       stderr = [SendingFd 6],
       fdtable = [(6, 6), (5, 5), (4, 4), (3, 3), (2, 2), (1, 1), (0, 0)], files = 7,
       sent = [(3, 6)], installed = [(4, 6, 6)] \<rparr>"

definition later_actions :: "action list" where
  "later_actions =
     [ChannelReadable 0, ServiceEvent 0 None, ThreadAccept 0 (7, EINTR) 1,
      ChannelReadable 0, ServiceEvent 0 None]"

definition later_world :: world where
  "later_world =
     drained_world \<lparr> sockpairs := [\<lparr> wr_end = 3, rd_end = 4, pending = [fd_message 7] \<rparr>],
                     closed := [6, 7], events := [(1, 0), (1, 0), (1, 0)],
                     stderr := [SendingFd 6, SendingFd 7], files := 8,
                     sent := [(3, 6), (3, 7)] \<rparr>"

text \<open>
  A run from the start: one \<^verbatim>\<open>server\<close>, one \<^verbatim>\<open>client\<close> registration, two
  connections accepted and sent (each as descriptor 6, which the acceptor closes after
  sending), then readiness notifications and drain runs; and the state it ends in.
\<close>

definition two_connections :: "action list" where
  "two_connections =
     [Command 1 1 (os_ok 3 4) server_8080, ThreadStart 0 startup_ok,
      Command 1 1 os_none client_handler,
      ThreadAccept 0 (6, EINTR) 1, ThreadAccept 0 (6, EINTR) 1,
      ChannelReadable 0, ServiceEvent 0 None, ChannelReadable 0, ServiceEvent 0 None,
      ServiceEvent 0 None]"

definition stuck_world :: world where
  "stuck_world =
     drained_world \<lparr> sockpairs := [\<lparr> wr_end = 3, rd_end = 4, pending = [fd_message 7] \<rparr>],
                     closed := [6, 6], events := [(1, 0), (1, 0), (1, 0)],
                     stderr := [SendingFd 6, SendingFd 6], files := 8,
                     sent := [(3, 6), (3, 7)] \<rparr>"

text \<open>
  A host whose callback scripts register the consumer again, as a handler that wants
  the next connection does, and the state it leaves after the first connection was
  delivered.
\<close>

definition rearming_host :: host where
  "rearming_host =
     quiet_host \<lparr> Tcl_Eval := (\<lambda>ip script w.
        case socketserverObjCmd quiet_host ip 1 (os_ok 0 0) client_handler w of
          Inr (rc, w') \<Rightarrow> (rc, w')
        | Inl f \<Rightarrow> (1, w)) \<rparr>"

definition rearmed_world :: world where
  "rearmed_world =
     \<lparr> cdata = \<lparr> object_magic = 42,
                 ports = [\<lparr> targs = \<lparr> targs_in = 3, targs_port = 8080 \<rparr>, out = 4, channel = 3,
                            have_channel = 0, active = 1, interp = 1, threadId = 1,
                            callback = Some ''handler'', scriptLen = 87 \<rparr>] \<rparr>,
       sockpairs = [\<lparr> wr_end = 3, rd_end = 4, pending = [] \<rparr>], nonblocking = [4, 4],
       closed = [6], threads = [\<lparr> thread_arg = 0, thread_sock = 3, phase = Accepting \<rparr>],
       tcl_channels = [4, 6, 4], registered = [(1, 2)], handlers = [(1, 0), (3, 0)],
       events = [(1, 0), (1, 0)], errorInfo = [], evals = [(1, ''handler file6'')],
       stderr = [SendingFd 6],
       fdtable = [(6, 6), (5, 5), (4, 4), (3, 3), (2, 2), (1, 1), (0, 0)], files = 7,
       sent = [(3, 6)], installed = [(4, 6, 6)] \<rparr>"

section \<open>What the kernel's operations leave alone\<close>

lemma new_descriptor_frame [simp]:
  "cdata (new_descriptor fd w) = cdata w"
  "sockpairs (new_descriptor fd w) = sockpairs w"
  "nonblocking (new_descriptor fd w) = nonblocking w"
  "closed (new_descriptor fd w) = closed w"
  "threads (new_descriptor fd w) = threads w"
  "tcl_channels (new_descriptor fd w) = tcl_channels w"
  "registered (new_descriptor fd w) = registered w"
  "handlers (new_descriptor fd w) = handlers w"
  "events (new_descriptor fd w) = events w"
  "errorInfo (new_descriptor fd w) = errorInfo w"
  "evals (new_descriptor fd w) = evals w"
  "stderr (new_descriptor fd w) = stderr w"
  "sent (new_descriptor fd w) = sent w"
  "installed (new_descriptor fd w) = installed w"
  by (simp_all add: new_descriptor_def)

lemma close_descriptor_frame [simp]:
  "cdata (close_descriptor fd w) = cdata w"
  "sockpairs (close_descriptor fd w) = sockpairs w"
  "nonblocking (close_descriptor fd w) = nonblocking w"
  "closed (close_descriptor fd w) = closed w"
  "threads (close_descriptor fd w) = threads w"
  "tcl_channels (close_descriptor fd w) = tcl_channels w"
  "registered (close_descriptor fd w) = registered w"
  "handlers (close_descriptor fd w) = handlers w"
  "events (close_descriptor fd w) = events w"
  "errorInfo (close_descriptor fd w) = errorInfo w"
  "evals (close_descriptor fd w) = evals w"
  "stderr (close_descriptor fd w) = stderr w"
  "files (close_descriptor fd w) = files w"
  "sent (close_descriptor fd w) = sent w"
  "installed (close_descriptor fd w) = installed w"
  by (simp_all add: close_descriptor_def)

lemma taken_frame [simp]:
  "cdata (taken sock m w) = cdata w"
  "nonblocking (taken sock m w) = nonblocking w"
  "closed (taken sock m w) = closed w"
  "threads (taken sock m w) = threads w"
  "tcl_channels (taken sock m w) = tcl_channels w"
  "registered (taken sock m w) = registered w"
  "handlers (taken sock m w) = handlers w"
  "events (taken sock m w) = events w"
  "errorInfo (taken sock m w) = errorInfo w"
  "evals (taken sock m w) = evals w"
  "stderr (taken sock m w) = stderr w"
  "files (taken sock m w) = files w"
  "sent (taken sock m w) = sent w"
  by (simp_all add: taken_def)

lemma accepted_frame [simp]:
  "cdata (accepted a w) = cdata w"
  "sockpairs (accepted a w) = sockpairs w"
  "nonblocking (accepted a w) = nonblocking w"
  "closed (accepted a w) = closed w"
  "threads (accepted a w) = threads w"
  "tcl_channels (accepted a w) = tcl_channels w"
  "registered (accepted a w) = registered w"
  "handlers (accepted a w) = handlers w"
  "events (accepted a w) = events w"
  "errorInfo (accepted a w) = errorInfo w"
  "evals (accepted a w) = evals w"
  "stderr (accepted a w) = stderr w"
  "sent (accepted a w) = sent w"
  "installed (accepted a w) = installed w"
  by (simp_all add: accepted_def)


lemma lowest_free_nonneg [simp]: "0 \<le> lowest_free tbl" "lowest_free tbl \<noteq> - 1"
  by (simp_all add: lowest_free_def)
section \<open>Registry lemmas\<close>

lemma link_port_append: "link_port ps n = ps @ [n]"
  by (cases "ps = []") (simp_all add: link_port_def)

lemma search_port_None: "search_port i ps port = None \<longleftrightarrow> port \<notin> port_of ` set ps"
  by (induction ps arbitrary: i) (auto simp: port_of_def)

lemma search_port_Some:
  "search_port i ps port = Some k \<Longrightarrow>
     i \<le> k \<and> k - i < length ps \<and> port_of (ps ! (k - i)) = port \<and>
     (\<forall>j < k - i. port_of (ps ! j) \<noteq> port)"
proof (induction ps arbitrary: i)
  case Nil
  then show ?case by simp
next
  case (Cons p ps)
  show ?case
  proof (cases "targs_port (targs p) = port")
    case True
    with Cons.prems show ?thesis by (simp add: port_of_def)
  next
    case False
    with Cons.prems have s: "search_port (Suc i) ps port = Some k" by simp
    from Cons.IH [OF s] have ik: "Suc i \<le> k" and len: "k - Suc i < length ps"
      and hit: "port_of (ps ! (k - Suc i)) = port"
      and miss: "\<forall>j < k - Suc i. port_of (ps ! j) \<noteq> port" by simp_all
    from ik have ki: "k - i = Suc (k - Suc i)" by simp
    have "\<forall>j < k - i. port_of ((p # ps) ! j) \<noteq> port"
    proof (intro allI impI)
      fix j assume j: "j < k - i"
      show "port_of ((p # ps) ! j) \<noteq> port"
      proof (cases j)
        case 0
        with False show ?thesis by (simp add: port_of_def)
      next
        case (Suc j')
        with j ki miss show ?thesis by simp
      qed
    qed
    with ik len hit ki show ?thesis by simp
  qed
qed

lemma search_port_first:
  "search_port 0 ps port = Some k \<Longrightarrow>
     k < length ps \<and> port_of (ps ! k) = port \<and> (\<forall>j < k. port_of (ps ! j) \<noteq> port)"
  using search_port_Some [of 0 ps port k] by simp

lemma search_port_found:
  "port \<in> port_of ` set ps \<Longrightarrow> \<exists>k. search_port i ps port = Some k"
  using search_port_None [of i ps port] by (cases "search_port i ps port") auto

lemma default_port_cong:
  "map port_of ps = map port_of ps' \<Longrightarrow> default_port ps port = default_port ps' port"
  by (cases ps; cases ps') (auto simp: default_port_def port_of_def)

lemma search_port_cong:
  "map port_of ps = map port_of ps' \<Longrightarrow> search_port i ps port = search_port i ps' port"
proof (induction ps arbitrary: ps' i)
  case Nil
  then show ?case by simp
next
  case (Cons p ps)
  then obtain q qs where "ps' = q # qs" by (cases ps') auto
  with Cons show ?case by (auto simp: port_of_def)
qed

lemma search_port_append_new:
  "port \<notin> port_of ` set ps \<Longrightarrow> port_of n = port \<Longrightarrow> search_port i (ps @ [n]) port = Some (i + length ps)"
  by (induction ps arbitrary: i) (auto simp: port_of_def)

lemma default_port_append_new:
  "default_port ps port \<notin> port_of ` set ps \<Longrightarrow>
     default_port (ps @ [new_port (default_port ps port)]) port = default_port ps port"
  by (cases ps) (auto simp: default_port_def port_of_def new_port_def)

lemma port_of_new_port [simp]: "port_of (new_port p) = p"
  by (simp add: port_of_def new_port_def)

lemma getPort_cases:
  obtains (found) d where "search_port 0 (ports cd) (default_port (ports cd) port) = Some d"
      "socketserver_getPort cd port allocate = (Some d, cd)" "d < length (ports cd)"
  | (created) "default_port (ports cd) port \<notin> port_of ` set (ports cd)" "allocate"
      "socketserver_getPort cd port allocate =
         (Some (length (ports cd)), cd \<lparr> ports := ports cd @ [new_port (default_port (ports cd) port)] \<rparr>)"
  | (missing) "default_port (ports cd) port \<notin> port_of ` set (ports cd)" "\<not> allocate"
      "socketserver_getPort cd port allocate = (None, cd)"
proof (cases "search_port 0 (ports cd) (default_port (ports cd) port)")
  case None
  then have "default_port (ports cd) port \<notin> port_of ` set (ports cd)"
    by (simp add: search_port_None)
  with None created missing show ?thesis
    by (cases allocate) (simp_all add: socketserver_getPort_def link_port_append)
next
  case (Some d)
  with search_port_first [OF Some] found show ?thesis
    by (simp add: socketserver_getPort_def)
qed

text \<open>A lookup that returned a node finds the same node again, whatever happened to the
  fields other than the ports.\<close>

lemma getPort_again:
  assumes "socketserver_getPort cd port allocate = (Some d, cd')"
    and "map port_of (ports cd'') = map port_of (ports cd')"
  shows "socketserver_getPort cd'' port allocate' = (Some d, cd'')"
proof (cases rule: getPort_cases [of cd port allocate])
  case (found k)
  with assms(1) have e: "k = d" "cd' = cd" by simp_all
  from assms(2) e have m: "map port_of (ports cd'') = map port_of (ports cd)" by simp
  from found(1) e show ?thesis
    by (simp add: socketserver_getPort_def default_port_cong [OF m] search_port_cong [OF m])
next
  case created
  let ?rp = "default_port (ports cd) port"
  from created(3) assms(1) have e: "d = length (ports cd)" "cd' = cd \<lparr> ports := ports cd @ [new_port ?rp] \<rparr>"
    by simp_all
  from assms(2) e have m: "map port_of (ports cd'') = map port_of (ports cd @ [new_port ?rp])" by simp
  have "default_port (ports cd'') port = ?rp"
    using default_port_cong [OF m] default_port_append_new [OF created(1)] by simp
  moreover have "search_port 0 (ports cd'') ?rp = Some d"
    using search_port_cong [OF m] search_port_append_new [OF created(1), of "new_port ?rp" 0] e by simp
  ultimately show ?thesis by (simp add: socketserver_getPort_def)
next
  case missing
  with assms(1) show ?thesis by simp
qed


section \<open>Lemmas about the command\<close>

lemma TCL_codes [simp]: "TCL_OK \<noteq> TCL_ERROR" "TCL_ERROR \<noteq> TCL_OK"
  by (simp_all add: TCL_OK_def TCL_ERROR_def)

lemma map_port_of_update:
  assumes "port_of (f (ps ! d)) = port_of (ps ! d)"
  shows "map port_of (ps[d := f (ps ! d)]) = map port_of ps"
proof (cases "d < length ps")
  case True
  with assms have "(map port_of ps)[d := port_of (f (ps ! d))] = map port_of ps"
    by (simp add: list_update_same_conv)
  then show ?thesis by (simp add: map_update)
next
  case False
  then have "length ps \<le> d" by simp
  then show ?thesis by (simp add: list_update_beyond)
qed





lemma server_cmd_unfold:
  assumes "object_magic (cdata w) = SOCKETSERVER_OBJECT_MAGIC h"
    and "length objv = 3" and "obj_str (objv ! 1) = ''server''" and "obj_int (objv ! 2) = Some port"
  shows "socketserverObjCmd h ip tid os objv w = server_register ip os port w"
  using assms by (simp add: socketserverObjCmd_def)


lemma client_cmd_unfold:
  assumes "object_magic (cdata w) = SOCKETSERVER_OBJECT_MAGIC h"
    and "obj_str (objv ! 1) = ''client''"
  shows "length objv = 5 \<Longrightarrow> obj_int (objv ! 3) = Some port \<Longrightarrow>
           socketserverObjCmd h ip tid os objv w = client_register ip tid port (obj_str (objv ! 4)) w"
    and "length objv = 3 \<Longrightarrow>
           socketserverObjCmd h ip tid os objv w = client_register ip tid 0 (obj_str (objv ! 2)) w"
  using assms by (simp_all add: socketserverObjCmd_def)


lemma client_missing_entry:
  assumes "object_magic (cdata w) = SOCKETSERVER_OBJECT_MAGIC h"
    and "obj_str (objv ! 1) = ''client''"
    and "(length objv = 5 \<and> obj_int (objv ! 3) = Some port) \<or> (length objv = 3 \<and> port = 0)"
    and "port \<notin> port_of ` set (ports (cdata w))"
    and "port = 0 \<longrightarrow> ports (cdata w) = []"
  shows "\<exists>w'. socketserverObjCmd h ip tid os objv w = Inr (TCL_ERROR, w') \<and>
              w' = w \<lparr> errorInfo := errorInfo w @
                        [(ip, ''Could not find socketserver structure for port'')] \<rparr> \<and>
              cdata w' = cdata w \<and> ports (cdata w') = ports (cdata w)"
proof -
  from assms(4,5) have dp: "default_port (ports (cdata w)) port = port"
    by (auto simp: default_port_def)
  have "client_register ip tid port cb w =
          Inr (TCL_ERROR, w \<lparr> errorInfo := errorInfo w @
                        [(ip, ''Could not find socketserver structure for port'')] \<rparr>)" for cb
  proof (cases rule: getPort_cases [of "cdata w" port False])
    case (found d)
    with assms(4) dp search_port_None [of 0 "ports (cdata w)" port]
    show ?thesis by simp
  next
    case created
    then show ?thesis by simp
  next
    case missing
    then show ?thesis by (simp add: client_register_def Tcl_AddErrorInfo_def)
  qed
  with assms(3) client_cmd_unfold [OF assms(1,2)] show ?thesis by auto
qed

section \<open>Lemmas about the acceptor thread\<close>


lemma debug_frame [simp]:
  "cdata (debug h m w) = cdata w" "sockpairs (debug h m w) = sockpairs w"
  "threads (debug h m w) = threads w" "errorInfo (debug h m w) = errorInfo w"
  "nonblocking (debug h m w) = nonblocking w" "events (debug h m w) = events w"
  "handlers (debug h m w) = handlers w" "evals (debug h m w) = evals w"
  "tcl_channels (debug h m w) = tcl_channels w" "registered (debug h m w) = registered w"
  "closed (debug h m w) = closed w" "fdtable (debug h m w) = fdtable w"
  "files (debug h m w) = files w" "sent (debug h m w) = sent w"
  "installed (debug h m w) = installed w"
  by (simp_all add: debug_def)

lemma sendmsg_frame [simp]:
  "cdata (snd (sendmsg n sock fd w)) = cdata w"
  "nonblocking (snd (sendmsg n sock fd w)) = nonblocking w"
  "closed (snd (sendmsg n sock fd w)) = closed w"
  "threads (snd (sendmsg n sock fd w)) = threads w"
  "tcl_channels (snd (sendmsg n sock fd w)) = tcl_channels w"
  "registered (snd (sendmsg n sock fd w)) = registered w"
  "handlers (snd (sendmsg n sock fd w)) = handlers w"
  "events (snd (sendmsg n sock fd w)) = events w"
  "errorInfo (snd (sendmsg n sock fd w)) = errorInfo w"
  "evals (snd (sendmsg n sock fd w)) = evals w"
  "stderr (snd (sendmsg n sock fd w)) = stderr w"
  "fdtable (snd (sendmsg n sock fd w)) = fdtable w"
  "files (snd (sendmsg n sock fd w)) = files w"
  "installed (snd (sendmsg n sock fd w)) = installed w"
  by (simp_all add: sendmsg_def split: option.splits)

lemma send_fd_frame [simp]:
  "cdata (snd (send_fd sock fd n w)) = cdata w"
  "nonblocking (snd (send_fd sock fd n w)) = nonblocking w"
  "closed (snd (send_fd sock fd n w)) = closed w"
  "threads (snd (send_fd sock fd n w)) = threads w"
  "tcl_channels (snd (send_fd sock fd n w)) = tcl_channels w"
  "registered (snd (send_fd sock fd n w)) = registered w"
  "handlers (snd (send_fd sock fd n w)) = handlers w"
  "events (snd (send_fd sock fd n w)) = events w"
  "errorInfo (snd (send_fd sock fd n w)) = errorInfo w"
  "evals (snd (send_fd sock fd n w)) = evals w"
  "stderr (snd (send_fd sock fd n w)) = stderr w"
  "fdtable (snd (send_fd sock fd n w)) = fdtable w"
  "files (snd (send_fd sock fd n w)) = files w"
  "installed (snd (send_fd sock fd n w)) = installed w"
  by (simp_all add: send_fd_def case_prod_beta)

lemma enqueue_absent: "sock \<notin> wr_end ` set sps \<Longrightarrow> enqueue sock m sps = sps"
  by (induction sps) auto

lemma accept_body_continue: "fst (accept_body h sock a n w) = Continue"
  by (simp add: accept_body_def Let_def case_prod_beta)

lemma accept_body_frame:
  "cdata (snd (accept_body h sock a n w)) = cdata w"
  "threads (snd (accept_body h sock a n w)) = threads w"
  "errorInfo (snd (accept_body h sock a n w)) = errorInfo w"
  "events (snd (accept_body h sock a n w)) = events w"
  "handlers (snd (accept_body h sock a n w)) = handlers w"
  "evals (snd (accept_body h sock a n w)) = evals w"
  "nonblocking (snd (accept_body h sock a n w)) = nonblocking w"
  "tcl_channels (snd (accept_body h sock a n w)) = tcl_channels w"
  "registered (snd (accept_body h sock a n w)) = registered w"
  "installed (snd (accept_body h sock a n w)) = installed w"
  by (simp_all add: accept_body_def Let_def case_prod_beta)

text \<open>A thread in its loop goes through the body and stays in the loop.\<close>

lemma step_ThreadAccept:
  "step h (ThreadAccept t res n) w =
     (if t < length (threads w) \<and> phase (threads w ! t) = Accepting
      then Inr (snd (accept_body h (thread_sock (threads w ! t)) res n w)) else Inr w)"
proof -
  obtain c w' where b: "accept_body h (thread_sock (threads w ! t)) res n w = (c, w')" by force
  with accept_body_continue [of h "thread_sock (threads w ! t)" res n w] have "c = Continue" by simp
  with b show ?thesis by (simp add: step_def)
qed

lemma accept_loop_continue: "fst (accept_loop h sock rs w) = Continue"
proof (induction rs arbitrary: w)
  case Nil
  then show ?case by simp
next
  case (Cons r rs)
  obtain a n where r: "r = (a, n)" by (cases r)
  obtain c w' where b: "accept_body h sock a n w = (c, w')" by force
  with accept_body_continue [of h sock a n w] have "c = Continue" by simp
  with b r Cons.IH show ?case by simp
qed

lemma accept_loop_Cons:
  "accept_loop h sock ((a, n) # rs) w = accept_loop h sock rs (snd (accept_body h sock a n w))"
proof -
  obtain c w' where b: "accept_body h sock a n w = (c, w')" by force
  with accept_body_continue [of h sock a n w] have "c = Continue" by simp
  with b show ?thesis by simp
qed

lemma accept_loop_threads: "threads (snd (accept_loop h sock rs w)) = threads w"
proof (induction rs arbitrary: w)
  case Nil
  then show ?case by simp
next
  case (Cons r rs)
  obtain a n where r: "r = (a, n)" by (cases r)
  from Cons.IH [of "snd (accept_body h sock a n w)"] r show ?case
    by (simp only: accept_loop_Cons accept_body_frame)
qed

lemma run_accept_actions:
  assumes "t < length (threads w)" and "phase (threads w ! t) = Accepting"
  shows "run h (accept_actions t rs) w = Inr (snd (accept_loop h (thread_sock (threads w ! t)) rs w))"
  using assms
proof (induction rs arbitrary: w)
  case Nil
  then show ?case by (simp add: accept_actions_def)
next
  case (Cons r rs)
  obtain a n where r: "r = (a, n)" by (cases r)
  let ?w = "snd (accept_body h (thread_sock (threads w ! t)) a n w)"
  have st: "step h (ThreadAccept t a n) w = Inr ?w"
    using Cons.prems by (simp add: step_ThreadAccept)
  have "run h (accept_actions t rs) ?w = Inr (snd (accept_loop h (thread_sock (threads ?w ! t)) rs ?w))"
    using Cons.prems by (intro Cons.IH) (simp_all add: accept_body_frame)
  with st r show ?case
    by (simp add: accept_actions_def accept_body_frame accept_loop_Cons del: accept_loop.simps)
qed



lemma server_register_total:
  "\<exists>rc w1. server_register ip os port w = Inr (rc, w1) \<and> (rc = TCL_OK \<or> rc = TCL_ERROR)"
  by (cases rule: getPort_cases [of "cdata w" port True])
    (auto simp: server_register_def Let_def split: option.splits)

lemma server_register_error_iff:
  assumes "server_register ip os port w = Inr (rc, w1)"
  shows "rc = TCL_ERROR \<longleftrightarrow>
           (\<exists>d cd. socketserver_getPort (cdata w) port True = (Some d, cd) \<and>
                   targs_in (targs (ports cd ! d)) = - 1 \<and>
                   (socketpair_res os = None \<or> pthread_create_res os \<noteq> 0))"
  using assms
  by (cases rule: getPort_cases [of "cdata w" port True])
    (auto simp: server_register_def Let_def split: option.splits if_splits)

lemma server_register_threads:
  assumes "server_register ip os port w = Inr (rc, w1)"
  shows "threads w1 = threads w \<or>
         (rc = TCL_OK \<and> (\<exists>d < length (ports (cdata w1)).
            threads w1 = threads w @ [\<lparr> thread_arg = d, thread_sock = 0, phase = Created \<rparr>]))"
  using assms
  by (cases rule: getPort_cases [of "cdata w" port True])
    (auto simp: server_register_def Let_def update_port_def Tcl_AddErrorInfo_def
      split: option.splits if_splits)

lemma startup_bind_failed:
  assumes "t < length (threads w)" and "bind_res r < 0"
  shows "phase (threads (socketserver_thread_startup h r t w) ! t) = Exited 1"
    and "length (threads (socketserver_thread_startup h r t w)) = length (threads w)"
    and "errorInfo (socketserver_thread_startup h r t w) = errorInfo w"
    and "cdata (socketserver_thread_startup h r t w) = cdata w"
    and "sockpairs (socketserver_thread_startup h r t w) = sockpairs w"
  using assms
  by (simp_all add: socketserver_thread_startup_def set_phase_def read_sock_def Let_def)

lemma run_accept_actions_not_accepting:
  assumes "t < length (threads w) \<longrightarrow> phase (threads w ! t) \<noteq> Accepting"
  shows "run h (accept_actions t rs) w = Inr w"
  using assms
  by (induction rs) (auto simp: accept_actions_def step_ThreadAccept)


section \<open>Lemmas about the drain handler\<close>


lemma set_active_same:
  "d < length (ports (cdata w)) \<Longrightarrow> active (ports (cdata w) ! d) = v \<Longrightarrow> set_active d v w = w"
  by (simp add: set_active_def list_update_same_conv)

lemma set_active_twice [simp]: "set_active d v (set_active d u w) = set_active d v w"
  by (cases "d < length (ports (cdata w))") (simp_all add: set_active_def list_update_beyond)

lemma set_active_frame [simp]:
  "sockpairs (set_active d v w) = sockpairs w" "nonblocking (set_active d v w) = nonblocking w"
  "threads (set_active d v w) = threads w" "errorInfo (set_active d v w) = errorInfo w"
  "events (set_active d v w) = events w" "handlers (set_active d v w) = handlers w"
  "evals (set_active d v w) = evals w" "tcl_channels (set_active d v w) = tcl_channels w"
  "registered (set_active d v w) = registered w" "closed (set_active d v w) = closed w"
  "stderr (set_active d v w) = stderr w" "fdtable (set_active d v w) = fdtable w"
  "files (set_active d v w) = files w" "sent (set_active d v w) = sent w"
  "installed (set_active d v w) = installed w"
  "length (ports (cdata (set_active d v w))) = length (ports (cdata w))"
  "object_magic (cdata (set_active d v w)) = object_magic (cdata w)"
  by (simp_all add: set_active_def)

lemma set_active_nth:
  "d < length (ports (cdata w)) \<Longrightarrow>
     ports (cdata (set_active d v w)) ! d = (ports (cdata w) ! d) \<lparr> active := v \<rparr>"
  "e \<noteq> d \<Longrightarrow> ports (cdata (set_active d v w)) ! e = ports (cdata w) ! e"
  by (simp_all add: set_active_def)

lemma recv_fd_injected: "recv_fd (Some e) sock w = Inr (- 1, w)"
  by (simp add: recv_fd_def recvmsg_def)

lemma EventProc_idle:
  "d < length (ports (cdata w)) \<Longrightarrow> active (ports (cdata w) ! d) = 0 \<Longrightarrow>
     socketserver_EventProc h flt d w = Inr (TCL_OK, w)"
  by (simp add: socketserver_EventProc_def)

lemma EventProc_armed:
  "d < length (ports (cdata w)) \<Longrightarrow> active (ports (cdata w) ! d) \<noteq> 0 \<Longrightarrow>
     socketserver_EventProc h flt d w =
       (case recv_fd flt (out (ports (cdata w) ! d)) (set_active d 0 w) of
           Inl f \<Rightarrow> Inl f
         | Inr (fd, w') \<Rightarrow>
             if fd = - 1 then Inr (TCL_OK, set_active d 1 w') else deliver h d fd w')"
  by (simp add: socketserver_EventProc_def)

section \<open>What commands and callback scripts preserve\<close>


lemma port_kept_refl [simp]: "port_kept r p p"
  by (simp add: port_kept_def)

lemma port_kept_trans: "port_kept r p p' \<Longrightarrow> port_kept r p' p'' \<Longrightarrow> port_kept r p p''"
  by (auto simp: port_kept_def)

lemma world_kept_refl [simp]: "world_kept r w w"
  by (simp add: world_kept_def)

lemma world_kept_trans:
  assumes "world_kept r w w'" and "world_kept r w' w''"
  shows "world_kept r w w''"
proof -
  let ?n = "length (ports (cdata w))" and ?n' = "length (ports (cdata w'))"
    and ?n'' = "length (ports (cdata w''))"
  from assms have len: "?n \<le> ?n'" "?n' \<le> ?n''" by (simp_all add: world_kept_def)
  have old: "port_kept r (ports (cdata w) ! e) (ports (cdata w'') ! e)" if "e < ?n" for e
  proof -
    from that assms(1) have "port_kept r (ports (cdata w) ! e) (ports (cdata w') ! e)"
      by (simp add: world_kept_def)
    moreover from that len assms(2) have "port_kept r (ports (cdata w') ! e) (ports (cdata w'') ! e)"
      by (simp add: world_kept_def)
    ultimately show ?thesis by (rule port_kept_trans)
  qed
  have new: "have_channel (ports (cdata w'') ! e) = 0 \<and> (\<not> r \<longrightarrow> active (ports (cdata w'') ! e) = 0)"
    if "e < ?n''" and "?n \<le> e" for e
  proof (cases "e < ?n'")
    case True
    with that assms(1) have a: "have_channel (ports (cdata w') ! e) = 0 \<and>
        (\<not> r \<longrightarrow> active (ports (cdata w') ! e) = 0)" by (simp add: world_kept_def)
    from True assms(2) have "port_kept r (ports (cdata w') ! e) (ports (cdata w'') ! e)"
      by (simp add: world_kept_def)
    with a show ?thesis by (auto simp: port_kept_def)
  next
    case False
    with that assms(2) show ?thesis by (simp add: world_kept_def)
  qed
  from assms obtain s1 s2 where s: "sockpairs w' = sockpairs w @ s1" "sockpairs w'' = sockpairs w' @ s2"
    by (auto simp: world_kept_def)
  from assms obtain e1 e2 where e: "events w' = events w @ e1" "events w'' = events w' @ e2"
    by (auto simp: world_kept_def)
  from assms obtain h1 h2 where h: "handlers w' = handlers w @ h1" "handlers w'' = handlers w' @ h2"
    "\<forall>x \<in> set h1. snd x < ?n'" "\<forall>x \<in> set h2. snd x < ?n''"
    by (auto simp: world_kept_def)
  from h len have hh: "handlers w'' = handlers w @ (h1 @ h2) \<and> (\<forall>x \<in> set (h1 @ h2). snd x < ?n'')"
    by auto
  from assms have rest: "set (nonblocking w) \<subseteq> set (nonblocking w'')" "evals w'' = evals w"
    "object_magic (cdata w'') = object_magic (cdata w)"
    "sent w'' = sent w" "installed w'' = installed w"
    by (auto simp: world_kept_def)
  from len old new s e hh rest show ?thesis
    unfolding world_kept_def by (intro conjI) (auto simp: s e)
qed


lemma Tcl_AddErrorInfo_kept: "world_kept r w w' \<Longrightarrow> world_kept r w (Tcl_AddErrorInfo ip msg w')"
  by (simp add: world_kept_def Tcl_AddErrorInfo_def)

lemma server_register_kept:
  assumes "server_register ip os port w = Inr (rc, w')"
  shows "world_kept False w w'"
proof (cases rule: getPort_cases [of "cdata w" port True])
  case (found d)
  show ?thesis
  proof (cases "targs_in (targs (ports (cdata w) ! d)) = - 1")
    case False
    with assms found show ?thesis by (simp add: server_register_def)
  next
    case True
    with assms found show ?thesis
      by (auto simp: server_register_def Let_def update_port_def Tcl_AddErrorInfo_def
          world_kept_def port_kept_def port_of_def nth_list_update
          split: option.splits if_splits)
  qed
next
  case created
  with assms show ?thesis
    by (auto simp: server_register_def Let_def update_port_def Tcl_AddErrorInfo_def
        world_kept_def port_kept_def port_of_def nth_list_update nth_append
        new_port_def zeroed_port_def
        split: option.splits if_splits)
next
  case missing
  then show ?thesis by simp
qed


lemma getPort_find_Some:
  assumes "socketserver_getPort cd port False = (Some d, cd')"
  shows "cd' = cd" and "d < length (ports cd)"
  using assms by (cases rule: getPort_cases [of cd port False]; simp)+

lemma client_register_effect:
  assumes "socketserver_getPort (cdata w) port False = (Some d, cd)"
  shows "\<exists>w'. client_register ip tid port cb w = Inr (TCL_OK, w') \<and>
           length (ports (cdata w')) = length (ports (cdata w)) \<and>
           (\<forall>e. e \<noteq> d \<longrightarrow> ports (cdata w') ! e = ports (cdata w) ! e) \<and>
           active (ports (cdata w') ! d) = 1 \<and>
           callback (ports (cdata w') ! d) = Some cb \<and>
           scriptLen (ports (cdata w') ! d) = length cb + 80 \<and>
           interp (ports (cdata w') ! d) = ip \<and> threadId (ports (cdata w') ! d) = tid \<and>
           out (ports (cdata w') ! d) = out (ports (cdata w) ! d) \<and>
           targs (ports (cdata w') ! d) = targs (ports (cdata w) ! d) \<and>
           have_channel (ports (cdata w') ! d) = have_channel (ports (cdata w) ! d) \<and>
           object_magic (cdata w') = object_magic (cdata w) \<and>
           sockpairs w' = sockpairs w \<and> evals w' = evals w \<and> threads w' = threads w \<and>
           fdtable w' = fdtable w \<and> files w' = files w \<and> sent w' = sent w \<and>
           installed w' = installed w \<and>
           errorInfo w' = errorInfo w \<and> registered w' = registered w \<and>
           closed w' = closed w \<and> stderr w' = stderr w \<and>
           nonblocking w' = out (ports (cdata w) ! d) # nonblocking w \<and>
           events w' = events w @ [(tid, d)] \<and>
           (have_channel (ports (cdata w) ! d) = 0 \<longrightarrow>
              tcl_channels w' = tcl_channels w @ [out (ports (cdata w) ! d)] \<and>
              handlers w' = handlers w @ [(Suc (length (tcl_channels w)), d)] \<and>
              channel (ports (cdata w') ! d) = Suc (length (tcl_channels w))) \<and>
           (have_channel (ports (cdata w) ! d) \<noteq> 0 \<longrightarrow>
              tcl_channels w' = tcl_channels w \<and> handlers w' = handlers w \<and>
              channel (ports (cdata w') ! d) = channel (ports (cdata w) ! d))"
proof -
  from getPort_find_Some [OF assms] have cd: "cd = cdata w" and d: "d < length (ports (cdata w))"
    by simp_all
  show ?thesis
  proof (cases "have_channel (ports (cdata w) ! d) = 0")
    case True
    with assms cd d show ?thesis
      by (simp add: client_register_def Let_def update_port_def set_nonblocking_def
          Tcl_MakeFileChannel_def Tcl_CreateChannelHandler_def set_active_def
          socketserver_readable_def Tcl_ThreadQueueEvent_def)
  next
    case False
    with assms cd d show ?thesis
      by (simp add: client_register_def Let_def update_port_def set_nonblocking_def
          set_active_def socketserver_readable_def Tcl_ThreadQueueEvent_def)
  qed
qed

lemma client_register_kept:
  assumes "client_register ip tid port cb w = Inr (rc, w')"
  shows "world_kept True w w'"
proof (cases rule: getPort_cases [of "cdata w" port False])
  case (found d)
  from client_register_effect [OF found(2), of ip tid cb] assms
  have eff: "length (ports (cdata w')) = length (ports (cdata w))"
    "\<forall>e. e \<noteq> d \<longrightarrow> ports (cdata w') ! e = ports (cdata w) ! e"
    "active (ports (cdata w') ! d) = 1"
    "out (ports (cdata w') ! d) = out (ports (cdata w) ! d)"
    "targs (ports (cdata w') ! d) = targs (ports (cdata w) ! d)"
    "have_channel (ports (cdata w') ! d) = have_channel (ports (cdata w) ! d)"
    "object_magic (cdata w') = object_magic (cdata w)"
    "sockpairs w' = sockpairs w" "evals w' = evals w"
    "nonblocking w' = out (ports (cdata w) ! d) # nonblocking w"
    "events w' = events w @ [(tid, d)]"
    "handlers w' = handlers w \<or> handlers w' = handlers w @ [(Suc (length (tcl_channels w)), d)]"
    "sent w' = sent w" "installed w' = installed w"
    by auto
  have "port_kept True (ports (cdata w) ! e) (ports (cdata w') ! e)" for e
    using eff(2-6) by (cases "e = d") (simp_all add: port_kept_def port_of_def)
  moreover have "\<exists>new. handlers w' = handlers w @ new \<and>
      (\<forall>x \<in> set new. snd x < length (ports (cdata w')))"
    using eff(12) found(3) eff(1) by auto
  ultimately show ?thesis
    using eff(1,7-11,13,14) by (auto simp: world_kept_def)
next
  case created
  then show ?thesis by simp
next
  case missing
  with assms have "w' = Tcl_AddErrorInfo ip ''Could not find socketserver structure for port'' w"
    by (simp add: client_register_def)
  then show ?thesis by (simp add: Tcl_AddErrorInfo_kept)
qed


lemma cmd_kept:
  assumes "socketserverObjCmd h ip tid os objv w = Inr (rc, w')"
  shows "world_kept True w w'"
    and "\<not> is_client_cmd (Command ip tid os objv) \<Longrightarrow> world_kept False w w'"
proof -
  have weaken: "world_kept False w w' \<Longrightarrow> world_kept True w w'"
    by (auto simp: world_kept_def port_kept_def)
  show "world_kept False w w'" if "\<not> is_client_cmd (Command ip tid os objv)"
    using assms that
    by (auto simp: socketserverObjCmd_def is_client_cmd_def Let_def Tcl_AddErrorInfo_kept
        server_register_kept split: if_splits option.splits)
  show "world_kept True w w'"
    using assms
    by (auto simp: socketserverObjCmd_def Let_def Tcl_AddErrorInfo_kept
        server_register_kept client_register_kept weaken split: if_splits option.splits)
qed

lemma run_commands_kept:
  assumes "\<forall>c \<in> set cs. is_command c \<and> (r \<or> \<not> is_client_cmd c)"
    and "run h cs w = Inr w'"
  shows "world_kept r w w'"
  using assms
proof (induction cs arbitrary: w)
  case Nil
  then show ?case by simp
next
  case (Cons c cs)
  from Cons.prems(1) obtain ip tid os objv where c: "c = Command ip tid os objv"
    by (cases c) (auto simp: is_command_def)
  from Cons.prems(2) c obtain rc w1 where
    w1: "socketserverObjCmd h ip tid os objv w = Inr (rc, w1)" and rest: "run h cs w1 = Inr w'"
    by (auto simp: step_def split: sum.splits)
  have "world_kept r w w1"
    using cmd_kept [OF w1] Cons.prems(1) c by (cases r) auto
  moreover have "world_kept r w1 w'"
    using Cons.IH [OF _ rest] Cons.prems(1) by simp
  ultimately show ?case by (rule world_kept_trans)
qed

lemma scripts_kept:
  assumes "scripts_run h P" and "\<And>c. P c \<Longrightarrow> r \<or> \<not> is_client_cmd c"
  shows "world_kept r w (snd (Tcl_Eval h ip script w))"
proof -
  from assms(1) obtain cs where cs: "\<forall>c \<in> set cs. is_command c \<and> P c"
    and run: "run h cs w = Inr (snd (Tcl_Eval h ip script w))"
    unfolding scripts_run_def by blast
  from cs assms(2) have "\<forall>c \<in> set cs. is_command c \<and> (r \<or> \<not> is_client_cmd c)" by blast
  from run_commands_kept [OF this run] show ?thesis .
qed

section \<open>Case analysis of the drain handler\<close>


lemma readable_pair_append:
  "readable_pair sock sps = Some sp \<Longrightarrow> readable_pair sock (sps @ new) = Some sp"
  by (induction sps) auto

lemma readable_pair_dequeue:
  "readable_pair sock sps = Some sp \<Longrightarrow>
     readable_pair sock (dequeue sock sps) = Some (sp \<lparr> pending := tl (pending sp) \<rparr>)"
  by (induction sps) auto

lemma readable_pair_dequeue_other:
  "sock' \<noteq> sock \<Longrightarrow> readable_pair sock' (dequeue sock sps) = readable_pair sock' sps"
  by (induction sps) auto

lemma scan_fd_message [simp]: "scan_headers (fd_message fd) = fd"
  by (simp add: fd_message_def)

lemma install_fd_message [simp]:
  "install_rights (fd_message f) tbl = (fd_message (lowest_free tbl), [(lowest_free tbl, f)])"
  by (simp add: fd_message_def)

lemma taken_set_active: "taken sock m (set_active d v w) = set_active d v (taken sock m w)"
  by (simp add: taken_def set_active_def)

lemma recv_fd_cases:
  assumes "recv_fd flt sock w = Inr (fd, w')"
  obtains (failed) "fd = - 1" "w' = w"
  | (received) sp m where "flt = None" "readable_pair sock (sockpairs w) = Some sp"
      "m \<in> set (take 1 (pending sp))" "fd = scan_headers (fst (install_rights m (fdtable w)))"
      "w' = taken sock m w"
proof (cases flt)
  case (Some e)
  with assms have "fd = - 1" "w' = w" by (simp_all add: recv_fd_def recvmsg_def)
  then show thesis by (rule failed)
next
  case None
  show thesis
  proof (cases "readable_pair sock (sockpairs w)")
    case nopair: None
    with assms None have "fd = - 1" "w' = w" by (simp_all add: recv_fd_def recvmsg_def)
    then show thesis by (rule failed)
  next
    case (Some sp)
    show thesis
    proof (cases "pending sp")
      case Nil
      with assms None Some have "fd = - 1" "w' = w"
        by (simp_all add: recv_fd_def recvmsg_def split: if_splits)
      then show thesis by (rule failed)
    next
      case (Cons m ms)
      with assms None Some have "fd = scan_headers (fst (install_rights m (fdtable w)))"
        "w' = taken sock m w"
        by (simp_all add: recv_fd_def recvmsg_def)
      moreover from Cons have "m \<in> set (take 1 (pending sp))" by simp
      ultimately show thesis using None Some by (intro received [of sp m]) simp_all
    qed
  qed
qed

lemma recv_fd_pending:
  assumes "readable_pair sock (sockpairs w) = Some sp" and "pending sp = m # ms"
  shows "recv_fd None sock w =
           Inr (scan_headers (fst (install_rights m (fdtable w))), taken sock m w)"
  using assms by (simp add: recv_fd_def recvmsg_def)

lemma recv_fd_empty:
  assumes "readable_pair sock (sockpairs w) = Some sp" and "pending sp = []"
    and "sock \<in> set (nonblocking w)"
  shows "recv_fd flt sock w = Inr (- 1, w)"
  using assms by (cases flt) (simp_all add: recv_fd_def recvmsg_def)

text \<open>The state in which \<^verbatim>\<open>Tcl_Eval\<close> is called for descriptor \<open>fd\<close> of port \<open>d\<close>.\<close>

lemma deliver_cases:
  assumes "deliver h d fd w = Inr (rc, w')"
  obtains (noname) "Tcl_GetChannelName h fd = []" "rc = TCL_ERROR"
      "w' = w \<lparr> tcl_channels := tcl_channels w @ [fd],
                registered := registered w @ [(interp (ports (cdata w) ! d), Suc (length (tcl_channels w)))],
                errorInfo := errorInfo w @ [(interp (ports (cdata w) ! d),
                   ''Failed to get channel name for ancil_recv_fd file descriptor.'')] \<rparr>"
  | (called) cb where "Tcl_GetChannelName h fd \<noteq> []" "callback (ports (cdata w) ! d) = Some cb"
      "length cb + 1 + length (Tcl_GetChannelName h fd) + 1 \<le> scriptLen (ports (cdata w) ! d)"
      "(rc, w') = Tcl_Eval h (interp (ports (cdata w) ! d)) (cb @ '' '' @ Tcl_GetChannelName h fd)
          (w \<lparr> tcl_channels := tcl_channels w @ [fd],
               registered := registered w @ [(interp (ports (cdata w) ! d), Suc (length (tcl_channels w)))],
               evals := evals w @ [(interp (ports (cdata w) ! d), cb @ '' '' @ Tcl_GetChannelName h fd)] \<rparr>)"
  using assms
  by (auto simp: deliver_def Let_def Tcl_MakeFileChannel_def Tcl_RegisterChannel_def
      Tcl_AddErrorInfo_def Tcl_Eval_call_def split: option.splits if_splits)

lemma deliver_called:
  assumes "Tcl_GetChannelName h fd \<noteq> []" and "callback (ports (cdata w) ! d) = Some cb"
    and "length cb + length (Tcl_GetChannelName h fd) + 2 \<le> scriptLen (ports (cdata w) ! d)"
  shows "deliver h d fd w =
     Inr (Tcl_Eval h (interp (ports (cdata w) ! d)) (cb @ '' '' @ Tcl_GetChannelName h fd)
          (w \<lparr> tcl_channels := tcl_channels w @ [fd],
               registered := registered w @ [(interp (ports (cdata w) ! d), Suc (length (tcl_channels w)))],
               evals := evals w @ [(interp (ports (cdata w) ! d), cb @ '' '' @ Tcl_GetChannelName h fd)] \<rparr>))"
  using assms
  by (simp add: deliver_def Let_def Tcl_MakeFileChannel_def Tcl_RegisterChannel_def
      Tcl_Eval_call_def)

lemma EventProc_cases:
  assumes "socketserver_EventProc h flt d w = Inr (rc, w')"
  obtains (idle) "d < length (ports (cdata w))" "active (ports (cdata w) ! d) = 0" "w' = w" "rc = TCL_OK"
  | (rearm) w0 m where "d < length (ports (cdata w))" "active (ports (cdata w) ! d) \<noteq> 0" "rc = TCL_OK"
      "w0 = w \<or> w0 = taken (out (ports (cdata w) ! d)) m w"
      "w' = set_active d 1 w0"
  | (drained) fd sp m where "d < length (ports (cdata w))" "active (ports (cdata w) ! d) \<noteq> 0"
      "fd \<noteq> - 1" "flt = None"
      "readable_pair (out (ports (cdata w) ! d)) (sockpairs w) = Some sp"
      "m \<in> set (take 1 (pending sp))" "fd = scan_headers (fst (install_rights m (fdtable w)))"
      "deliver h d fd (set_active d 0 (taken (out (ports (cdata w) ! d)) m w)) = Inr (rc, w')"
proof -
  from assms have d: "d < length (ports (cdata w))"
    by (auto simp: socketserver_EventProc_def split: if_splits)
  show thesis
  proof (cases "active (ports (cdata w) ! d) = 0")
    case True
    with assms d have "w' = w" "rc = TCL_OK" by (simp_all add: EventProc_idle)
    with d True show ?thesis by (rule idle)
  next
    case False
    let ?out = "out (ports (cdata w) ! d)"
    from assms d False obtain fd w0 where r: "recv_fd flt ?out (set_active d 0 w) = Inr (fd, w0)"
      and res: "(if fd = - 1 then Inr (TCL_OK, set_active d 1 w0) else deliver h d fd w0) = Inr (rc, w')"
      by (auto simp: EventProc_armed split: sum.splits)
    from r show ?thesis
    proof (cases rule: recv_fd_cases)
      case failed
      with res have "rc = TCL_OK" "w' = set_active d 1 w" by simp_all
      with d False show ?thesis by (intro rearm [of w]) simp_all
    next
      case (received sp m)
      let ?deq = "taken ?out m w"
      from received(5) have w0: "w0 = set_active d 0 ?deq" by (simp add: taken_set_active)
      from received(4) have fd: "fd = scan_headers (fst (install_rights m (fdtable w)))" by simp
      show ?thesis
      proof (cases "fd = - 1")
        case True
        with res w0 have "rc = TCL_OK" "w' = set_active d 1 ?deq" by simp_all
        with d False show ?thesis by (intro rearm [of ?deq m]) simp_all
      next
        case ne: False
        with res w0 have "deliver h d fd (set_active d 0 ?deq) = Inr (rc, w')" by simp
        with d False ne received(1) received(2) received(3) fd
        show ?thesis by (intro drained [of fd sp m]) simp_all
      qed
    qed
  qed
qed

lemma quiet_host_scripts: "scripts_run quiet_host P"
  unfolding scripts_run_def
proof (intro allI)
  fix ip script w
  have "(\<forall>c \<in> set []. is_command c \<and> P c) \<and>
      run quiet_host [] w = Inr (snd (Tcl_Eval quiet_host ip script w))"
    by (simp add: quiet_host_def)
  then show "\<exists>cs. (\<forall>c \<in> set cs. is_command c \<and> P c) \<and>
      run quiet_host cs w = Inr (snd (Tcl_Eval quiet_host ip script w))" by blast
qed



lemma run_append:
  "run h (as1 @ as2) w = (case run h as1 w of Inl f \<Rightarrow> Inl f | Inr w' \<Rightarrow> run h as2 w')"
  by (induction as1 arbitrary: w) (auto split: sum.splits)

lemma startup_cdata [simp]: "cdata (socketserver_thread_startup h r t w) = cdata w"
  by (simp add: socketserver_thread_startup_def set_phase_def read_sock_def Let_def)

lemma readable_cdata: "socketserver_readable d w = Inr w' \<Longrightarrow> cdata w' = cdata w"
  by (auto simp: socketserver_readable_def Tcl_ThreadQueueEvent_def split: if_splits)

text \<open>While the guard of port \<open>d\<close> is down, no step other than a \<^verbatim>\<open>client\<close>
  command raises it.\<close>

lemma step_guard_down:
  assumes scripts: "scripts_run h (\<lambda>c. \<not> is_client_cmd c)"
    and a: "\<not> is_client_cmd a"
    and J: "d < length (ports (cdata w))" "active (ports (cdata w) ! d) = 0"
    and st: "step h a w = Inr w'"
  shows "d < length (ports (cdata w')) \<and> active (ports (cdata w') ! d) = 0"
proof -
  have kept: "d < length (ports (cdata v')) \<and> active (ports (cdata v') ! d) = 0"
    if "world_kept False v v'" "cdata v = cdata w" for v v'
    using that J by (auto simp: world_kept_def port_kept_def)
  show ?thesis
  proof (cases a)
    case (Command ip tid os objv)
    with st obtain rc where "socketserverObjCmd h ip tid os objv w = Inr (rc, w')"
      by (auto simp: step_def split: sum.splits)
    from cmd_kept(2) [OF this] a Command show ?thesis by (intro kept [of w]) simp_all
  next
    case (ThreadStart t r)
    with st J show ?thesis by (auto simp: step_def split: if_splits)
  next
    case (ThreadAccept t res n)
    with st J show ?thesis by (auto simp: step_ThreadAccept accept_body_frame split: if_splits)
  next
    case (ChannelReadable k)
    with st J show ?thesis by (auto simp: step_def dest: readable_cdata split: if_splits)
  next
    case (ServiceEvent e flt)
    show ?thesis
    proof (cases "e \<in> snd ` set (events w)")
      case False
      with st ServiceEvent J show ?thesis by (simp add: step_def)
    next
      case True
      with st ServiceEvent obtain rc where ep: "socketserver_EventProc h flt e w = Inr (rc, w')"
        by (auto simp: step_def split: sum.splits)
      from ep show ?thesis
      proof (cases rule: EventProc_cases)
        case idle
        with J show ?thesis by simp
      next
        case (rearm w0)
        with J have "e \<noteq> d" by auto
        with rearm J show ?thesis by (auto simp: set_active_def)
      next
        case (drained fd sp m)
        with J have ed: "e \<noteq> d" by auto
        let ?w0 = "set_active e 0 (taken (out (ports (cdata w) ! e)) m w)"
        from ed J have J0: "d < length (ports (cdata ?w0))" "active (ports (cdata ?w0) ! d) = 0"
          by (simp_all add: set_active_def)
        from drained(8) show ?thesis
        proof (cases rule: deliver_cases)
          case noname
          with J0 show ?thesis by simp
        next
          case (called cb)
          let ?pre = "?w0 \<lparr> tcl_channels := tcl_channels ?w0 @ [fd],
               registered := registered ?w0 @ [(interp (ports (cdata ?w0) ! e), Suc (length (tcl_channels ?w0)))],
               evals := evals ?w0 @ [(interp (ports (cdata ?w0) ! e), cb @ '' '' @ Tcl_GetChannelName h fd)] \<rparr>"
          from called(4) have w': "w' = snd (Tcl_Eval h (interp (ports (cdata ?w0) ! e))
              (cb @ '' '' @ Tcl_GetChannelName h fd) ?pre)"
            by (metis snd_conv)
          have "world_kept False ?pre w'"
            unfolding w' by (rule scripts_kept [OF scripts]) simp
          with J0 show ?thesis by (auto simp: world_kept_def port_kept_def)
        qed
      qed
    qed
  qed
qed

lemma run_guard_down:
  assumes scripts: "scripts_run h (\<lambda>c. \<not> is_client_cmd c)"
    and "\<forall>a \<in> set as. \<not> is_client_cmd a"
    and "d < length (ports (cdata w))" "active (ports (cdata w) ! d) = 0"
    and "run h as w = Inr w'"
  shows "d < length (ports (cdata w')) \<and> active (ports (cdata w') ! d) = 0"
  using assms(2-)
proof (induction as arbitrary: w)
  case Nil
  then show ?case by simp
next
  case (Cons a as)
  from Cons.prems(4) obtain w1 where w1: "step h a w = Inr w1" and rest: "run h as w1 = Inr w'"
    by (auto split: sum.splits)
  from step_guard_down [OF scripts _ Cons.prems(2,3) w1] Cons.prems(1)
  have "d < length (ports (cdata w1)) \<and> active (ports (cdata w1) ! d) = 0" by simp
  with Cons.IH [OF _ _ _ rest] Cons.prems(1) show ?case by simp
qed




lemma flags_clear_cdata: "cdata w' = cdata w \<Longrightarrow> flags_clear m w \<Longrightarrow> flags_clear m w'"
  by (simp add: flags_clear_def)

lemma flags_clear_set_active: "flags_clear m w \<Longrightarrow> flags_clear m (set_active d v w)"
proof (cases "d < length (ports (cdata w))")
  case True
  assume f: "flags_clear m w"
  let ?ps = "ports (cdata w)"
  from True f have "have_channel (?ps ! d) = 0" by (simp add: flags_clear_def)
  moreover have "set (?ps[d := (?ps ! d) \<lparr> active := v \<rparr>]) \<subseteq> insert ((?ps ! d) \<lparr> active := v \<rparr>) (set ?ps)"
    by (rule set_update_subset_insert)
  ultimately show ?thesis using f by (auto simp: flags_clear_def set_active_def)
next
  case False
  assume "flags_clear m w"
  with False show ?thesis by (simp add: flags_clear_def set_active_def list_update_beyond)
qed

lemma flags_clear_kept:
  assumes "world_kept r w w'" and "flags_clear m w"
  shows "flags_clear m w'"
proof -
  have "have_channel p = 0" if "p \<in> set (ports (cdata w'))" for p
  proof -
    from that obtain e where e: "e < length (ports (cdata w'))" "p = ports (cdata w') ! e"
      by (auto simp: in_set_conv_nth)
    show ?thesis
    proof (cases "e < length (ports (cdata w))")
      case True
      with assms(1) have "port_kept r (ports (cdata w) ! e) (ports (cdata w') ! e)"
        by (simp add: world_kept_def)
      moreover from True assms(2) have "have_channel (ports (cdata w) ! e) = 0"
        by (simp add: flags_clear_def)
      ultimately show ?thesis using e by (simp add: port_kept_def)
    next
      case False
      with assms(1) e show ?thesis by (simp add: world_kept_def)
    qed
  qed
  with assms show ?thesis by (simp add: flags_clear_def world_kept_def)
qed

lemma step_flags_clear:
  assumes scripts: "scripts_run h (\<lambda>c. True)"
    and K: "flags_clear m w"
    and st: "step h a w = Inr w'"
  shows "flags_clear m w'"
proof (cases a)
  case (Command ip tid os objv)
  with st obtain rc where "socketserverObjCmd h ip tid os objv w = Inr (rc, w')"
    by (auto simp: step_def split: sum.splits)
  from cmd_kept(1) [OF this] K show ?thesis by (rule flags_clear_kept)
next
  case (ThreadStart t r)
  with st K show ?thesis by (auto simp: step_def flags_clear_def split: if_splits)
next
  case (ThreadAccept t res n)
  with st K show ?thesis by (auto simp: step_ThreadAccept flags_clear_def accept_body_frame split: if_splits)
next
  case (ChannelReadable k)
  with st K show ?thesis
    by (auto simp: step_def flags_clear_def dest: readable_cdata split: if_splits)
next
  case (ServiceEvent e flt)
  show ?thesis
  proof (cases "e \<in> snd ` set (events w)")
    case False
    with st ServiceEvent K show ?thesis by (simp add: step_def)
  next
    case True
    with st ServiceEvent obtain rc where ep: "socketserver_EventProc h flt e w = Inr (rc, w')"
      by (auto simp: step_def split: sum.splits)
    from ep show ?thesis
    proof (cases rule: EventProc_cases)
      case idle
      with K show ?thesis by simp
    next
      case (rearm w0)
      from rearm(4) K have "flags_clear m w0" by (auto simp: flags_clear_def)
      with rearm(5) show ?thesis by (simp add: flags_clear_set_active)
    next
      case (drained fd sp m')
      let ?w0 = "set_active e 0 (taken (out (ports (cdata w) ! e)) m' w)"
      from K have "flags_clear m (taken (out (ports (cdata w) ! e)) m' w)"
        by (simp add: flags_clear_def)
      then have K0: "flags_clear m ?w0" by (rule flags_clear_set_active)
      from drained(8) show ?thesis
      proof (cases rule: deliver_cases)
        case noname
        with K0 show ?thesis by (simp add: flags_clear_def)
      next
        case (called cb)
        let ?pre = "?w0 \<lparr> tcl_channels := tcl_channels ?w0 @ [fd],
               registered := registered ?w0 @ [(interp (ports (cdata ?w0) ! e), Suc (length (tcl_channels ?w0)))],
               evals := evals ?w0 @ [(interp (ports (cdata ?w0) ! e), cb @ '' '' @ Tcl_GetChannelName h fd)] \<rparr>"
        from called(4) have w': "w' = snd (Tcl_Eval h (interp (ports (cdata ?w0) ! e))
              (cb @ '' '' @ Tcl_GetChannelName h fd) ?pre)"
          by (metis snd_conv)
        have "world_kept True ?pre w'"
          unfolding w' by (rule scripts_kept [OF scripts]) simp
        moreover from K0 have "flags_clear m ?pre" by (simp add: flags_clear_def)
        ultimately show ?thesis by (rule flags_clear_kept)
      qed
    qed
  qed
qed

lemma run_flags_clear:
  assumes scripts: "scripts_run h (\<lambda>c. True)"
    and "flags_clear m w" and "run h as w = Inr w'"
  shows "flags_clear m w'"
  using assms(2-)
proof (induction as arbitrary: w)
  case Nil
  then show ?case by simp
next
  case (Cons a as)
  from Cons.prems(2) obtain w1 where w1: "step h a w = Inr w1" and rest: "run h as w1 = Inr w'"
    by (auto split: sum.splits)
  from step_flags_clear [OF scripts Cons.prems(1) w1] Cons.IH rest show ?case by simp
qed

lemma initial_flags_clear: "flags_clear m (initial_world m)"
  by (simp add: flags_clear_def initial_world_def)


lemma client_register_again:
  assumes "socketserver_getPort (cdata w) port False = (Some d, cd)"
    and "client_register ip tid port cb w = Inr (rc, w')"
  shows "socketserver_getPort (cdata w') port False = (Some d, cdata w')"
proof -
  from client_register_effect [OF assms(1), of ip tid cb] assms(2)
  have len: "length (ports (cdata w')) = length (ports (cdata w))"
    and other: "\<forall>e. e \<noteq> d \<longrightarrow> ports (cdata w') ! e = ports (cdata w) ! e"
    and same: "targs (ports (cdata w') ! d) = targs (ports (cdata w) ! d)"
    by auto
  have "port_of (ports (cdata w') ! e) = port_of (ports (cdata w) ! e)" for e
    using other same by (cases "e = d") (simp_all add: port_of_def)
  with len have "map port_of (ports (cdata w')) = map port_of (ports (cdata w))"
    by (simp add: list_eq_iff_nth_eq)
  moreover from getPort_find_Some(1) [OF assms(1)] assms(1)
  have "socketserver_getPort (cdata w) port False = (Some d, cdata w)" by simp
  ultimately show ?thesis by (rule getPort_again [rotated])
qed

lemma client_repeat:
  assumes magic: "object_magic (cdata w) = SOCKETSERVER_OBJECT_MAGIC h"
    and flags: "\<forall>p \<in> set (ports (cdata w)). have_channel p = 0"
    and client: "obj_str (objv ! 1) = ''client''"
      "(length objv = 5 \<and> obj_int (objv ! 3) = Some port) \<or> (length objv = 3 \<and> port = 0)"
    and found: "socketserver_getPort (cdata w) port False = (Some d, cd)"
  shows "\<exists>w'. run h (replicate n (Command ip tid os objv)) w = Inr w' \<and>
           flags_clear (SOCKETSERVER_OBJECT_MAGIC h) w' \<and>
           socketserver_getPort (cdata w') port False = (Some d, cdata w') \<and>
           out (ports (cdata w') ! d) = out (ports (cdata w) ! d) \<and>
           tcl_channels w' = tcl_channels w @ replicate n (out (ports (cdata w) ! d)) \<and>
           handlers w' = handlers w @ map (\<lambda>k. (Suc (length (tcl_channels w) + k), d)) [0..<n]"
proof (induction n)
  case 0
  from getPort_find_Some(1) [OF found] found magic flags show ?case
    by (simp add: flags_clear_def)
next
  case (Suc n)
  let ?c = "Command ip tid os objv"
  from Suc obtain wn where run: "run h (replicate n ?c) w = Inr wn"
    and K: "flags_clear (SOCKETSERVER_OBJECT_MAGIC h) wn"
    and g: "socketserver_getPort (cdata wn) port False = (Some d, cdata wn)"
    and o: "out (ports (cdata wn) ! d) = out (ports (cdata w) ! d)"
    and tc: "tcl_channels wn = tcl_channels w @ replicate n (out (ports (cdata w) ! d))"
    and hs: "handlers wn = handlers w @ map (\<lambda>k. (Suc (length (tcl_channels w) + k), d)) [0..<n]"
    by blast
  from getPort_find_Some(2) [OF g] K have hc: "have_channel (ports (cdata wn) ! d) = 0"
    by (simp add: flags_clear_def)
  from K have m: "object_magic (cdata wn) = SOCKETSERVER_OBJECT_MAGIC h"
    by (simp add: flags_clear_def)
  obtain cb where cmd: "socketserverObjCmd h ip tid os objv wn = client_register ip tid port cb wn"
    using client client_cmd_unfold [OF m client(1)] by auto
  from client_register_effect [OF g, of ip tid cb] hc obtain w'
    where reg: "client_register ip tid port cb wn = Inr (TCL_OK, w')"
      and eff: "out (ports (cdata w') ! d) = out (ports (cdata wn) ! d)"
        "tcl_channels w' = tcl_channels wn @ [out (ports (cdata wn) ! d)]"
        "handlers w' = handlers wn @ [(Suc (length (tcl_channels wn)), d)]"
    by auto
  have st: "step h ?c wn = Inr w'"
    using cmd reg by (simp add: step_def)
  have "run h (replicate (Suc n) ?c) w = run h (replicate n ?c @ [?c]) w"
    by (simp add: replicate_append_same)
  also have "\<dots> = Inr w'"
    using run st by (simp add: run_append)
  finally have r: "run h (replicate (Suc n) ?c) w = Inr w'" .
  have K': "flags_clear (SOCKETSERVER_OBJECT_MAGIC h) w'"
    using client_register_kept [OF reg] K by (rule flags_clear_kept)
  have g': "socketserver_getPort (cdata w') port False = (Some d, cdata w')"
    using g reg by (rule client_register_again)
  have tc': "tcl_channels w' = tcl_channels w @ replicate (Suc n) (out (ports (cdata w) ! d))"
    using eff(2) tc o by (simp add: replicate_append_same)
  have hs': "handlers w' = handlers w @ map (\<lambda>k. (Suc (length (tcl_channels w) + k), d)) [0..<Suc n]"
    using eff(3) hs tc by simp
  from r K' g' eff(1) o tc' hs' show ?case by simp
qed



lemma cmd_host_magic:
  "SOCKETSERVER_OBJECT_MAGIC h' = SOCKETSERVER_OBJECT_MAGIC h \<Longrightarrow>
     socketserverObjCmd h' ip tid os objv w = socketserverObjCmd h ip tid os objv w"
  unfolding socketserverObjCmd_def by presburger

lemma rearming_host_scripts: "scripts_run rearming_host (\<lambda>c. True)"
  unfolding scripts_run_def
proof (intro allI)
  fix ip script w
  let ?c = "Command ip 1 (os_ok 0 0) client_handler"
  have same: "socketserverObjCmd rearming_host ip 1 (os_ok 0 0) client_handler w =
      socketserverObjCmd quiet_host ip 1 (os_ok 0 0) client_handler w"
    by (rule cmd_host_magic) (simp add: rearming_host_def)
  show "\<exists>cs. (\<forall>c \<in> set cs. is_command c \<and> True) \<and>
      run rearming_host cs w = Inr (snd (Tcl_Eval rearming_host ip script w))"
  proof (cases "socketserverObjCmd quiet_host ip 1 (os_ok 0 0) client_handler w")
    case (Inl f)
    then have "run rearming_host [] w = Inr (snd (Tcl_Eval rearming_host ip script w))"
      by (simp add: rearming_host_def)
    then show ?thesis by (intro exI [of _ "[]"]) simp
  next
    case (Inr r)
    obtain rc w' where r: "r = (rc, w')" by (cases r)
    with Inr same have "run rearming_host [?c] w = Inr (snd (Tcl_Eval rearming_host ip script w))"
      by (simp add: step_def rearming_host_def)
    then show ?thesis by (intro exI [of _ "[?c]"]) (simp add: is_command_def)
  qed
qed

section \<open>Deliveries and armed guards\<close>


lemma sum_list_map_update:
  fixes f :: "'a \<Rightarrow> int"
  shows "i < length xs \<Longrightarrow> sum_list (map f (xs[i := x])) = sum_list (map f xs) - f (xs ! i) + f x"
proof (induction xs arbitrary: i)
  case Nil
  then show ?case by simp
next
  case (Cons y ys)
  then show ?case by (cases i) simp_all
qed

lemma armed_count_nonneg: "0 \<le> armed_count w"
  unfolding armed_count_def by (rule sum_list_nonneg) auto

lemma armed_count_cdata: "cdata w' = cdata w \<Longrightarrow> armed_count w' = armed_count w"
  by (simp add: armed_count_def)

lemma armed_count_set_active:
  assumes "d < length (ports (cdata w))"
  shows "armed_count (set_active d v w) =
           armed_count w - (if active (ports (cdata w) ! d) = 0 then 0 else 1) + (if v = 0 then 0 else 1)"
  using assms by (simp add: armed_count_def set_active_def sum_list_map_update)

lemma armed_count_kept:
  assumes "world_kept False w w'"
  shows "armed_count w' = armed_count w"
proof -
  let ?f = "\<lambda>p. if active p = 0 then 0 else (1::int)"
  let ?ps = "ports (cdata w)" and ?ps' = "ports (cdata w')"
  from assms have len: "length ?ps \<le> length ?ps'" by (simp add: world_kept_def)
  have "map ?f ?ps' = map ?f ?ps @ replicate (length ?ps' - length ?ps) 0"
  proof (rule nth_equalityI)
    show "length (map ?f ?ps') = length (map ?f ?ps @ replicate (length ?ps' - length ?ps) 0)"
      using len by simp
  next
    fix e assume "e < length (map ?f ?ps')"
    then have e: "e < length ?ps'" by simp
    show "map ?f ?ps' ! e = (map ?f ?ps @ replicate (length ?ps' - length ?ps) 0) ! e"
    proof (cases "e < length ?ps")
      case True
      with assms have "port_kept False (?ps ! e) (?ps' ! e)" by (simp add: world_kept_def)
      then have "active (?ps' ! e) = active (?ps ! e)" by (simp add: port_kept_def)
      with True e show ?thesis by (simp add: nth_append)
    next
      case False
      with assms e have "active (?ps' ! e) = 0" by (simp add: world_kept_def)
      with False e show ?thesis by (simp add: nth_append)
    qed
  qed
  moreover have "sum_list (replicate n (0::int)) = 0" for n
    by (induction n) simp_all
  ultimately have "sum_list (map ?f ?ps') = sum_list (map ?f ?ps)" by simp
  then show ?thesis by (simp add: armed_count_def)
qed


lemma client_register_budget:
  assumes "client_register ip tid port cb w = Inr (rc, w')"
  shows "armed_count w' \<le> armed_count w + 1"
proof (cases rule: getPort_cases [of "cdata w" port False])
  case (found d)
  let ?ps = "ports (cdata w)" and ?ps' = "ports (cdata w')"
  from client_register_effect [OF found(2), of ip tid cb] assms
  have len: "length ?ps' = length ?ps" and other: "\<forall>e. e \<noteq> d \<longrightarrow> ?ps' ! e = ?ps ! e"
    and act: "active (?ps' ! d) = 1" by auto
  have "?ps' = ?ps[d := ?ps' ! d]"
  proof (rule nth_equalityI)
    show "length ?ps' = length (?ps[d := ?ps' ! d])" using len by simp
  next
    fix i assume "i < length ?ps'"
    with len other show "?ps' ! i = ?ps[d := ?ps' ! d] ! i"
      by (cases "i = d") simp_all
  qed
  then have "armed_count w' = sum_list (map (\<lambda>p. if active p = 0 then 0 else 1) (?ps[d := ?ps' ! d]))"
    by (simp add: armed_count_def)
  also have "\<dots> = armed_count w - (if active (?ps ! d) = 0 then 0 else 1) + 1"
    using found(3) act by (simp add: sum_list_map_update armed_count_def)
  finally show ?thesis by simp
next
  case created
  then show ?thesis by simp
next
  case missing
  with assms show ?thesis
    by (auto simp: client_register_def Tcl_AddErrorInfo_def armed_count_def)
qed

lemma cmd_budget:
  assumes "socketserverObjCmd h ip tid os objv w = Inr (rc, w')"
  shows "evals w' = evals w"
    and "armed_count w' \<le> armed_count w + (if is_client_cmd (Command ip tid os objv) then 1 else 0)"
proof -
  from cmd_kept(1) [OF assms] show "evals w' = evals w" by (simp add: world_kept_def)
  show "armed_count w' \<le> armed_count w + (if is_client_cmd (Command ip tid os objv) then 1 else 0)"
  proof (cases "is_client_cmd (Command ip tid os objv)")
    case False
    from cmd_kept(2) [OF assms False] have "armed_count w' = armed_count w"
      by (rule armed_count_kept)
    with False show ?thesis by simp
  next
    case True
    then have c: "obj_str (objv ! 1) = ''client''" "2 \<le> length objv"
      by (simp_all add: is_client_cmd_def)
    from assms c have "w' = w \<or> (\<exists>msg. w' = Tcl_AddErrorInfo ip msg w) \<or>
        (\<exists>port cb. client_register ip tid port cb w = Inr (rc, w'))"
      by (auto simp: socketserverObjCmd_def Let_def split: if_splits option.splits)
    then have "armed_count w' \<le> armed_count w + 1"
      by (auto simp: Tcl_AddErrorInfo_def armed_count_def dest: client_register_budget)
    with True show ?thesis by simp
  qed
qed

text \<open>Every callback evaluation uses up one armed guard, and only a \<^verbatim>\<open>client\<close>
  command arms one.\<close>

lemma step_budget:
  assumes scripts: "scripts_run h (\<lambda>c. \<not> is_client_cmd c)"
    and st: "step h a w = Inr w'"
  shows "int (length (evals w')) + armed_count w'
           \<le> int (length (evals w)) + armed_count w + (if is_client_cmd a then 1 else 0)"
proof (cases a)
  case (Command ip tid os objv)
  with st obtain rc where "socketserverObjCmd h ip tid os objv w = Inr (rc, w')"
    by (auto simp: step_def split: sum.splits)
  from cmd_budget [OF this] Command show ?thesis by simp
next
  case (ThreadStart t r)
  with st show ?thesis
    by (auto simp: step_def is_client_cmd_def armed_count_def socketserver_thread_startup_def
        set_phase_def read_sock_def Let_def split: if_splits)
next
  case (ThreadAccept t res n)
  with st show ?thesis
    by (auto simp: step_ThreadAccept is_client_cmd_def armed_count_def accept_body_frame split: if_splits)
next
  case (ChannelReadable k)
  with st show ?thesis
    by (auto simp: step_def is_client_cmd_def armed_count_def socketserver_readable_def
        Tcl_ThreadQueueEvent_def split: if_splits)
next
  case (ServiceEvent e flt)
  then have nc: "\<not> is_client_cmd a" by (simp add: is_client_cmd_def)
  show ?thesis
  proof (cases "e \<in> snd ` set (events w)")
    case False
    with st ServiceEvent show ?thesis by (simp add: step_def is_client_cmd_def)
  next
    case True
    with st ServiceEvent obtain rc where ep: "socketserver_EventProc h flt e w = Inr (rc, w')"
      by (auto simp: step_def split: sum.splits)
    from ep show ?thesis
    proof (cases rule: EventProc_cases)
      case idle
      then show ?thesis by simp
    next
      case (rearm w0)
      from rearm(4) have c0: "cdata w0 = cdata w" "evals w0 = evals w" by auto
      from rearm(1,2) c0 have "armed_count (set_active e 1 w0) = armed_count w"
        by (simp add: armed_count_set_active armed_count_cdata [OF c0(1)])
      with rearm(5) c0 nc show ?thesis by simp
    next
      case (drained fd sp m)
      let ?deq = "taken (out (ports (cdata w) ! e)) m w"
      let ?w0 = "set_active e 0 ?deq"
      have "armed_count ?deq = armed_count w" by (rule armed_count_cdata) simp
      with drained(1,2) have a0: "armed_count ?w0 = armed_count w - 1"
        by (simp add: armed_count_set_active)
      have e0: "evals ?w0 = evals w" by simp
      from drained(8) show ?thesis
      proof (cases rule: deliver_cases)
        case noname
        then have "armed_count w' = armed_count ?w0" "evals w' = evals ?w0"
          by (simp_all add: armed_count_def)
        with a0 e0 nc show ?thesis by simp
      next
        case (called cb)
        let ?pre = "?w0 \<lparr> tcl_channels := tcl_channels ?w0 @ [fd],
               registered := registered ?w0 @ [(interp (ports (cdata ?w0) ! e), Suc (length (tcl_channels ?w0)))],
               evals := evals ?w0 @ [(interp (ports (cdata ?w0) ! e), cb @ '' '' @ Tcl_GetChannelName h fd)] \<rparr>"
        from called(4) have w': "w' = snd (Tcl_Eval h (interp (ports (cdata ?w0) ! e))
              (cb @ '' '' @ Tcl_GetChannelName h fd) ?pre)"
          by (metis snd_conv)
        have k: "world_kept False ?pre w'"
          unfolding w' by (rule scripts_kept [OF scripts]) simp
        then have "armed_count w' = armed_count ?pre" by (rule armed_count_kept)
        moreover have "armed_count ?pre = armed_count ?w0" by (simp add: armed_count_def)
        moreover from k have "evals w' = evals ?pre" by (simp add: world_kept_def)
        moreover have "length (evals ?pre) = Suc (length (evals w))" by simp
        ultimately show ?thesis using a0 nc by simp
      qed
    qed
  qed
qed

lemma run_budget:
  assumes scripts: "scripts_run h (\<lambda>c. \<not> is_client_cmd c)"
    and "run h as w = Inr w'"
  shows "int (length (evals w')) + armed_count w'
           \<le> int (length (evals w)) + armed_count w + int (length (filter is_client_cmd as))"
  using assms(2)
proof (induction as arbitrary: w)
  case Nil
  then show ?case by simp
next
  case (Cons a as)
  from Cons.prems obtain w1 where w1: "step h a w = Inr w1" and rest: "run h as w1 = Inr w'"
    by (auto split: sum.splits)
  from step_budget [OF scripts w1] Cons.IH [OF rest] show ?case
    by (cases "is_client_cmd a") simp_all
qed

section \<open>The descriptor table and the socket pairs\<close>


lemma hd_filter_holds: "filter P xs \<noteq> [] \<Longrightarrow> P (hd (filter P xs))"
  by (induction xs) auto

lemma lowest_free_fresh: "lowest_free tbl \<notin> fst ` set tbl"
proof -
  let ?n = "length tbl"
  let ?P = "\<lambda>k. int k \<notin> fst ` set tbl"
  have "\<exists>k \<in> set [0..<Suc ?n]. ?P k"
  proof (rule ccontr)
    assume a: "\<not> (\<exists>k \<in> set [0..<Suc ?n]. ?P k)"
    have sub: "int ` {0..<Suc ?n} \<subseteq> fst ` set tbl"
    proof
      fix x assume "x \<in> int ` {0..<Suc ?n}"
      then obtain k where k: "k < Suc ?n" "x = int k" by auto
      then have "k \<in> set [0..<Suc ?n]" by (simp del: upt_Suc)
      with a have "\<not> ?P k" by blast
      with k show "x \<in> fst ` set tbl" by simp
    qed
    have "card (int ` {0..<Suc ?n}) = Suc ?n" by (simp add: card_image)
    moreover have "card (int ` {0..<Suc ?n}) \<le> card (fst ` set tbl)"
      using sub by (intro card_mono) simp_all
    moreover have "card (fst ` set tbl) \<le> card (set tbl)" by (rule card_image_le) simp
    moreover have "card (set tbl) \<le> ?n" by (rule card_length)
    ultimately show False by simp
  qed
  then have "filter ?P [0..<Suc ?n] \<noteq> []" by (simp only: filter_empty_conv) blast
  then have "?P (hd (filter ?P [0..<Suc ?n]))" by (rule hd_filter_holds)
  then show ?thesis unfolding lowest_free_def .
qed

lemma ends_dequeue:
  "concat (map (\<lambda>sp. [wr_end sp, rd_end sp]) (dequeue s sps)) =
   concat (map (\<lambda>sp. [wr_end sp, rd_end sp]) sps)"
  by (induction sps) auto

lemma ends_enqueue:
  "concat (map (\<lambda>sp. [wr_end sp, rd_end sp]) (enqueue s m sps)) =
   concat (map (\<lambda>sp. [wr_end sp, rd_end sp]) sps)"
  by (induction sps) auto

lemma dequeue_map:
  assumes "distinct (concat (map (\<lambda>sp. [wr_end sp, rd_end sp]) sps))"
  shows "dequeue s sps = map (\<lambda>sp. if rd_end sp = s then sp \<lparr> pending := tl (pending sp) \<rparr> else sp) sps"
  using assms
proof (induction sps)
  case Nil
  then show ?case by simp
next
  case (Cons sp sps)
  show ?case
  proof (cases "rd_end sp = s")
    case True
    with Cons.prems have "\<forall>q \<in> set sps. rd_end q \<noteq> s" by auto
    then have "map (\<lambda>sp. if rd_end sp = s then sp \<lparr> pending := tl (pending sp) \<rparr> else sp) sps = sps"
      by (induction sps) auto
    with True show ?thesis by simp
  next
    case False
    with Cons show ?thesis by simp
  qed
qed

lemma enqueue_map:
  assumes "distinct (concat (map (\<lambda>sp. [wr_end sp, rd_end sp]) sps))"
  shows "enqueue s m sps = map (\<lambda>sp. if wr_end sp = s then sp \<lparr> pending := pending sp @ [m] \<rparr> else sp) sps"
  using assms
proof (induction sps)
  case Nil
  then show ?case by simp
next
  case (Cons sp sps)
  show ?case
  proof (cases "wr_end sp = s")
    case True
    with Cons.prems have "\<forall>q \<in> set sps. wr_end q \<noteq> s" by auto
    then have "map (\<lambda>sp. if wr_end sp = s then sp \<lparr> pending := pending sp @ [m] \<rparr> else sp) sps = sps"
      by (induction sps) auto
    with True show ?thesis by simp
  next
    case False
    with Cons show ?thesis by simp
  qed
qed

lemma readable_pair_mem: "readable_pair s sps = Some sp \<Longrightarrow> sp \<in> set sps \<and> rd_end sp = s"
  by (induction sps) (auto split: if_splits)

lemma kernel_ok_frame:
  assumes "kernel_ok w"
    and "fdtable w' = fdtable w" "files w' = files w" "sockpairs w' = sockpairs w"
    and "sent w' = sent w" "installed w' = installed w"
    and "\<forall>p \<in> set (ports (cdata w')). targs_in (targs p) \<noteq> - 1 \<longrightarrow>
           (\<exists>sp \<in> set (sockpairs w). wr_end sp = targs_in (targs p) \<and> rd_end sp = out p)"
  shows "kernel_ok w'"
  using assms by (simp add: kernel_ok_def pair_ends_def files_received_def files_sent_def)

lemma kernel_ok_new_descriptor:
  assumes "kernel_ok w" and "fd \<notin> fst ` set (fdtable w)"
  shows "kernel_ok (new_descriptor fd w)"
proof -
  from assms(2) have f: "filter (\<lambda>e. fst e \<noteq> fd) (fdtable w) = fdtable w"
    by (auto simp: filter_id_conv)
  from assms(1) have "\<forall>e \<in> set (sent w). snd e < Suc (files w)"
    by (auto simp: kernel_ok_def)
  with assms f show ?thesis
    by (auto simp: kernel_ok_def new_descriptor_def pair_ends_def files_received_def
        files_sent_def)
qed

lemma kernel_ok_close_descriptor:
  assumes "kernel_ok w" and "fd \<notin> set (pair_ends w)"
    and "fd \<notin> (\<lambda>e. fst (snd e)) ` set (installed w)"
  shows "kernel_ok (close_descriptor fd w)"
proof -
  have d: "distinct (map fst (filter (\<lambda>e. fst e \<noteq> fd) (fdtable w)))"
    using assms(1) by (simp add: kernel_ok_def distinct_map_filter)
  have k: "fst ` set (filter (\<lambda>e. fst e \<noteq> fd) (fdtable w)) = fst ` set (fdtable w) - {fd}"
    by auto
  from assms have e: "set (pair_ends w) \<subseteq> fst ` set (fdtable w) - {fd}"
    by (auto simp: kernel_ok_def)
  from assms have i: "\<forall>e \<in> set (installed w). snd e \<in> set (filter (\<lambda>e. fst e \<noteq> fd) (fdtable w))"
    by (auto simp: kernel_ok_def)
  from assms(1) d k e i show ?thesis
    by (simp add: kernel_ok_def close_descriptor_def pair_ends_def files_received_def
        files_sent_def)
qed



lemma carried_fd_message [simp]: "carried (fd_message f) = [f]"
  by (simp add: carried_def fd_message_def)

lemma set_tl_subset: "x \<in> set (tl xs) \<Longrightarrow> x \<in> set xs"
  by (cases xs) auto

lemma same_read_end:
  assumes "distinct (concat (map (\<lambda>sp. [wr_end sp, rd_end sp]) sps))"
    and "p \<in> set sps" and "q \<in> set sps" and "rd_end p = rd_end q"
  shows "p = q"
  using assms by (induction sps) auto

lemma kernel_okD:
  assumes "kernel_ok w"
  shows "distinct (map fst (fdtable w))"
    and "distinct (pair_ends w)"
    and "set (pair_ends w) \<subseteq> fst ` set (fdtable w)"
    and "\<forall>sp \<in> set (sockpairs w). \<forall>m \<in> set (pending sp). \<exists>f. m = fd_message f"
    and "distinct (map (\<lambda>e. fst (snd e)) (installed w))"
    and "\<forall>e \<in> set (installed w). 0 \<le> fst (snd e) \<and> snd e \<in> set (fdtable w) \<and>
                                 fst e \<in> set (pair_ends w)"
    and "\<forall>sp \<in> set (sockpairs w).
        files_received (rd_end sp) w @ files_pending sp = files_sent (wr_end sp) w"
    and "sorted_wrt (<) (map snd (sent w))"
    and "\<forall>e \<in> set (sent w). snd e < files w \<and> fst e \<in> set (pair_ends w)"
    and "\<forall>p \<in> set (ports (cdata w)). targs_in (targs p) \<noteq> - 1 \<longrightarrow>
        (\<exists>sp \<in> set (sockpairs w). wr_end sp = targs_in (targs p) \<and> rd_end sp = out p)"
  using assms by (simp_all add: kernel_ok_def)

lemma installed_open:
  assumes "kernel_ok w" and "e \<in> set (installed w)"
  shows "fst (snd e) \<in> fst ` set (fdtable w)"
proof -
  from kernel_okD(6) [OF assms(1)] assms(2) have "snd e \<in> set (fdtable w)" by blast
  then show ?thesis by (intro image_eqI [of _ _ "snd e"]) simp_all
qed

lemma kernel_ok_sent:
  assumes ok: "kernel_ok w" and sock: "sock \<in> wr_end ` set (sockpairs w)"
    and newer: "\<forall>e \<in> set (sent w). snd e < f" and f: "f < files w"
  shows "kernel_ok (w \<lparr> sockpairs := enqueue sock (fd_message f) (sockpairs w),
                         sent := sent w @ [(sock, f)] \<rparr>)"
proof -
  let ?m = "fd_message f"
  let ?g = "\<lambda>sp. if wr_end sp = sock then sp \<lparr> pending := pending sp @ [?m] \<rparr> else sp"
  let ?w = "w \<lparr> sockpairs := enqueue sock ?m (sockpairs w), sent := sent w @ [(sock, f)] \<rparr>"
  from kernel_okD(2) [OF ok]
  have dist: "distinct (concat (map (\<lambda>sp. [wr_end sp, rd_end sp]) (sockpairs w)))"
    by (simp add: pair_ends_def)
  have sps: "sockpairs ?w = map ?g (sockpairs w)"
    using enqueue_map [OF dist] by simp
  have ends: "pair_ends ?w = pair_ends w"
    by (simp add: pair_ends_def ends_enqueue)
  have g_ends: "wr_end (?g sp) = wr_end sp" "rd_end (?g sp) = rd_end sp" for sp by simp_all
  have shape: "\<forall>sp \<in> set (sockpairs ?w). \<forall>m \<in> set (pending sp). \<exists>f. m = fd_message f"
  proof (intro ballI)
    fix sp' m assume a: "sp' \<in> set (sockpairs ?w)" "m \<in> set (pending sp')"
    then obtain q where q: "q \<in> set (sockpairs w)" "sp' = ?g q" unfolding sps by auto
    with a(2) have "m \<in> set (pending q) \<or> m = fd_message f" by (auto split: if_splits)
    with kernel_okD(4) [OF ok] q(1) show "\<exists>f. m = fd_message f" by blast
  qed
  have recv: "files_received s ?w = files_received s w" for s
    by (simp add: files_received_def)
  have snt: "files_sent s ?w = (if s = sock then files_sent s w @ [f] else files_sent s w)" for s
    by (simp add: files_sent_def)
  have fifo: "\<forall>sp \<in> set (sockpairs ?w).
        files_received (rd_end sp) ?w @ files_pending sp = files_sent (wr_end sp) ?w"
  proof
    fix sp' assume "sp' \<in> set (sockpairs ?w)"
    then obtain sp where sp: "sp \<in> set (sockpairs w)" "sp' = ?g sp" unfolding sps by auto
    from kernel_okD(7) [OF ok] sp(1)
    have old: "files_received (rd_end sp) w @ files_pending sp = files_sent (wr_end sp) w"
      by blast
    show "files_received (rd_end sp') ?w @ files_pending sp' = files_sent (wr_end sp') ?w"
    proof (cases "wr_end sp = sock")
      case True
      with sp(2) have "files_pending sp' = files_pending sp @ [f]"
        by (simp add: files_pending_def)
      with True sp(2) old [symmetric] show ?thesis
        by (simp add: snt recv)
    next
      case False
      with sp(2) old show ?thesis by (simp add: snt recv)
    qed
  qed
  have sorted: "sorted_wrt (<) (map snd (sent ?w))"
    using kernel_okD(8) [OF ok] newer by (auto simp: sorted_wrt_append)
  from sock have "sock \<in> set (pair_ends w)" by (auto simp: pair_ends_def)
  with kernel_okD(9) [OF ok] f
  have sent_ok: "\<forall>e \<in> set (sent ?w). snd e < files ?w \<and> fst e \<in> set (pair_ends ?w)"
    by (auto simp: ends)
  have link: "\<forall>p \<in> set (ports (cdata ?w)). targs_in (targs p) \<noteq> - 1 \<longrightarrow>
       (\<exists>sp \<in> set (sockpairs ?w). wr_end sp = targs_in (targs p) \<and> rd_end sp = out p)"
  proof (intro ballI impI)
    fix p assume "p \<in> set (ports (cdata ?w))" "targs_in (targs p) \<noteq> - 1"
    with kernel_okD(10) [OF ok] obtain sp where "sp \<in> set (sockpairs w)" "wr_end sp = targs_in (targs p)" "rd_end sp = out p"
      by auto
    then have "?g sp \<in> set (sockpairs ?w)" "wr_end (?g sp) = targs_in (targs p)" "rd_end (?g sp) = out p"
      unfolding sps by simp_all
    then show "\<exists>sp \<in> set (sockpairs ?w). wr_end sp = targs_in (targs p) \<and> rd_end sp = out p"
      by blast
  qed
  from kernel_okD(1,2,3,5,6) [OF ok]
  have rest: "distinct (map fst (fdtable ?w))" "distinct (pair_ends ?w)"
    "set (pair_ends ?w) \<subseteq> fst ` set (fdtable ?w)"
    "distinct (map (\<lambda>e. fst (snd e)) (installed ?w))"
    "\<forall>e \<in> set (installed ?w). 0 \<le> fst (snd e) \<and> snd e \<in> set (fdtable ?w) \<and>
                                 fst e \<in> set (pair_ends ?w)"
    unfolding ends by simp_all
  from rest shape fifo sorted sent_ok link show ?thesis
    unfolding kernel_ok_def by blast
qed

lemma kernel_ok_taken:
  assumes ok: "kernel_ok w" and rp: "readable_pair sock (sockpairs w) = Some sp"
    and pend: "pending sp = fd_message f # ms"
  shows "kernel_ok (taken sock (fd_message f) w)"
proof -
  let ?fd = "lowest_free (fdtable w)"
  let ?g = "\<lambda>sp. if rd_end sp = sock then sp \<lparr> pending := tl (pending sp) \<rparr> else sp"
  let ?w = "taken sock (fd_message f) w"
  from kernel_okD(2) [OF ok]
  have dist: "distinct (concat (map (\<lambda>sp. [wr_end sp, rd_end sp]) (sockpairs w)))"
    by (simp add: pair_ends_def)
  from readable_pair_mem [OF rp] have sp: "sp \<in> set (sockpairs w)" "rd_end sp = sock" by simp_all
  have tbl: "fdtable ?w = (?fd, f) # fdtable w"
    and inst: "installed ?w = installed w @ [(sock, ?fd, f)]"
    and sps: "sockpairs ?w = map ?g (sockpairs w)"
    using dequeue_map [OF dist] by (simp_all add: taken_def)
  have ends: "pair_ends ?w = pair_ends w"
    by (simp add: pair_ends_def taken_def ends_dequeue)
  have fresh: "?fd \<notin> fst ` set (fdtable w)" by (rule lowest_free_fresh)
  have keys: "distinct (map fst (fdtable ?w))"
    using kernel_okD(1) [OF ok] fresh by (simp add: tbl)
  have ends_ok: "distinct (pair_ends ?w)" "set (pair_ends ?w) \<subseteq> fst ` set (fdtable ?w)"
    using kernel_okD(2,3) [OF ok] unfolding ends tbl by auto
  note sh = kernel_okD(4) [OF ok]
  have shape: "\<forall>sp \<in> set (sockpairs ?w). \<forall>m \<in> set (pending sp). \<exists>f. m = fd_message f"
  proof (intro ballI)
    fix sp' m assume a: "sp' \<in> set (sockpairs ?w)" "m \<in> set (pending sp')"
    then obtain q where q: "q \<in> set (sockpairs w)" "sp' = ?g q" unfolding sps by auto
    with a(2) have "m \<in> set (pending q)" by (auto dest: set_tl_subset split: if_splits)
    with sh q(1) show "\<exists>f. m = fd_message f" by blast
  qed
  have old_fds: "\<forall>e \<in> set (installed w). fst (snd e) \<in> fst ` set (fdtable w)"
    using installed_open [OF ok] by blast
  with fresh have "?fd \<notin> (\<lambda>e. fst (snd e)) ` set (installed w)" by force
  with kernel_okD(5) [OF ok] have inst_dist: "distinct (map (\<lambda>e. fst (snd e)) (installed ?w))"
    by (simp add: inst)
  from sp have "sock \<in> set (pair_ends w)" by (auto simp: pair_ends_def)
  with kernel_okD(6) [OF ok]
  have inst_ok: "\<forall>e \<in> set (installed ?w). 0 \<le> fst (snd e) \<and> snd e \<in> set (fdtable ?w) \<and>
                                 fst e \<in> set (pair_ends ?w)"
    unfolding ends inst tbl by auto
  have sent: "files_sent s ?w = files_sent s w" for s
    by (simp add: files_sent_def)
  have recv: "files_received s ?w = (if s = sock then files_received s w @ [f] else files_received s w)" for s
    by (simp add: files_received_def inst)
  have fifo: "\<forall>sp \<in> set (sockpairs ?w).
        files_received (rd_end sp) ?w @ files_pending sp = files_sent (wr_end sp) ?w"
  proof
    fix sp' assume "sp' \<in> set (sockpairs ?w)"
    then obtain q where q: "q \<in> set (sockpairs w)" "sp' = ?g q" unfolding sps by auto
    from kernel_okD(7) [OF ok] q(1)
    have old: "files_received (rd_end q) w @ files_pending q = files_sent (wr_end q) w"
      by blast
    show "files_received (rd_end sp') ?w @ files_pending sp' = files_sent (wr_end sp') ?w"
    proof (cases "rd_end q = sock")
      case True
      with sp q(1) have "q = sp" using same_read_end [OF dist] by blast
      with pend have "files_pending q = f # files_pending (?g q)"
        using True by (simp add: files_pending_def)
      with True q(2) old show ?thesis by (simp add: sent recv)
    next
      case False
      with q(2) old show ?thesis by (simp add: sent recv)
    qed
  qed
  from kernel_okD(8,9) [OF ok] have sent_ok: "sorted_wrt (<) (map snd (sent ?w))"
    "\<forall>e \<in> set (sent ?w). snd e < files ?w \<and> fst e \<in> set (pair_ends ?w)"
    unfolding ends by (simp_all add: taken_def)
  have link: "\<forall>p \<in> set (ports (cdata ?w)). targs_in (targs p) \<noteq> - 1 \<longrightarrow>
       (\<exists>sp \<in> set (sockpairs ?w). wr_end sp = targs_in (targs p) \<and> rd_end sp = out p)"
  proof (intro ballI impI)
    fix p assume "p \<in> set (ports (cdata ?w))" "targs_in (targs p) \<noteq> - 1"
    with kernel_okD(10) [OF ok] obtain q where "q \<in> set (sockpairs w)" "wr_end q = targs_in (targs p)" "rd_end q = out p"
      by auto
    then have "?g q \<in> set (sockpairs ?w)" "wr_end (?g q) = targs_in (targs p)" "rd_end (?g q) = out p"
      unfolding sps by simp_all
    then show "\<exists>sp \<in> set (sockpairs ?w). wr_end sp = targs_in (targs p) \<and> rd_end sp = out p"
      by blast
  qed
  from keys ends_ok shape inst_dist inst_ok fifo sent_ok link show ?thesis
    unfolding kernel_ok_def by blast
qed



lemma kernel_ok_eq:
  assumes "fdtable w' = fdtable w" "files w' = files w" "sockpairs w' = sockpairs w"
    and "sent w' = sent w" "installed w' = installed w" "ports (cdata w') = ports (cdata w)"
  shows "kernel_ok w' = kernel_ok w"
  using assms by (simp add: kernel_ok_def pair_ends_def files_received_def files_sent_def)

lemma kernel_ok_debug [simp]: "kernel_ok (debug h m w) = kernel_ok w"
  by (rule kernel_ok_eq) simp_all

lemma kernel_ok_fields [simp]:
  "kernel_ok (w \<lparr> stderr := a \<rparr>) = kernel_ok w"
  "kernel_ok (w \<lparr> closed := b \<rparr>) = kernel_ok w"
  "kernel_ok (w \<lparr> threads := c \<rparr>) = kernel_ok w"
  "kernel_ok (w \<lparr> events := d \<rparr>) = kernel_ok w"
  "kernel_ok (w \<lparr> errorInfo := e \<rparr>) = kernel_ok w"
  "kernel_ok (w \<lparr> evals := f \<rparr>) = kernel_ok w"
  "kernel_ok (w \<lparr> tcl_channels := g \<rparr>) = kernel_ok w"
  "kernel_ok (w \<lparr> registered := i \<rparr>) = kernel_ok w"
  "kernel_ok (w \<lparr> handlers := j \<rparr>) = kernel_ok w"
  "kernel_ok (w \<lparr> nonblocking := k \<rparr>) = kernel_ok w"
  by (rule kernel_ok_eq; simp)+

lemma kernel_ok_ports:
  assumes "kernel_ok w"
    and "\<forall>p \<in> set ps. targs_in (targs p) \<noteq> - 1 \<longrightarrow>
           (\<exists>q \<in> set (ports (cdata w)). targs q = targs p \<and> out q = out p)"
  shows "kernel_ok (w \<lparr> cdata := (cdata w) \<lparr> ports := ps \<rparr> \<rparr>)"
proof (rule kernel_ok_frame [OF assms(1)])
  show "\<forall>p \<in> set (ports (cdata (w \<lparr> cdata := (cdata w) \<lparr> ports := ps \<rparr> \<rparr>))).
       targs_in (targs p) \<noteq> - 1 \<longrightarrow>
       (\<exists>sp \<in> set (sockpairs w). wr_end sp = targs_in (targs p) \<and> rd_end sp = out p)"
  proof (intro ballI impI)
    fix p assume p: "p \<in> set (ports (cdata (w \<lparr> cdata := (cdata w) \<lparr> ports := ps \<rparr> \<rparr>)))"
      "targs_in (targs p) \<noteq> - 1"
    with assms(2) obtain q where q: "q \<in> set (ports (cdata w))" "targs q = targs p" "out q = out p"
      by auto
    from q(2) p(2) have "targs_in (targs q) \<noteq> - 1" by simp
    with kernel_okD(10) [OF assms(1)] q(1) obtain sp where sp: "sp \<in> set (sockpairs w)"
      "wr_end sp = targs_in (targs q)" "rd_end sp = out q" by blast
    with q(2,3) show "\<exists>sp \<in> set (sockpairs w). wr_end sp = targs_in (targs p) \<and> rd_end sp = out p"
      by (intro bexI [of _ sp]) simp_all
  qed
qed simp_all

lemma kernel_ok_update_port:
  assumes "kernel_ok w"
    and "\<And>p. targs (f p) = targs p" "\<And>p. out (f p) = out p"
  shows "kernel_ok (update_port d f w)"
proof -
  let ?ps = "(ports (cdata w))[d := f (ports (cdata w) ! d)]"
  have "\<exists>q \<in> set (ports (cdata w)). targs q = targs p \<and> out q = out p" if "p \<in> set ?ps" for p
  proof (cases "d < length (ports (cdata w))")
    case True
    from that have "p = f (ports (cdata w) ! d) \<or> p \<in> set (ports (cdata w))"
      using set_update_subset_insert [of "ports (cdata w)" d "f (ports (cdata w) ! d)"] by auto
    with True assms(2,3) show ?thesis by (auto intro: bexI [of _ "ports (cdata w) ! d"])
  next
    case False
    with that show ?thesis by (auto simp: list_update_beyond)
  qed
  then have "kernel_ok (w \<lparr> cdata := (cdata w) \<lparr> ports := ?ps \<rparr> \<rparr>)"
    by (intro kernel_ok_ports [OF assms(1)]) blast
  then show ?thesis by (simp add: update_port_def)
qed

lemma kernel_ok_set_active: "kernel_ok w \<Longrightarrow> kernel_ok (set_active d v w)"
  using kernel_ok_update_port [of w "\<lambda>p. p \<lparr> active := v \<rparr>" d]
  by (simp add: update_port_def set_active_def)



lemma kernel_ok_thread_fields [simp]:
  "kernel_ok (read_sock t w) = kernel_ok w" "kernel_ok (set_phase t ph w) = kernel_ok w"
  by (simp_all add: read_sock_def set_phase_def)

lemma pair_ends_frame [simp]:
  "pair_ends (debug h m w) = pair_ends w" "pair_ends (new_descriptor fd w) = pair_ends w"
  "pair_ends (close_descriptor fd w) = pair_ends w"
  "pair_ends (w \<lparr> stderr := a \<rparr>) = pair_ends w" "pair_ends (w \<lparr> closed := b \<rparr>) = pair_ends w"
  by (simp_all add: pair_ends_def)

lemma sendmsg_kernel_ok:
  assumes ok: "kernel_ok v"
    and f: "\<And>f. map_of (fdtable v) fd = Some f \<Longrightarrow> (\<forall>e \<in> set (sent v). snd e < f) \<and> f < files v"
  shows "kernel_ok (snd (sendmsg n sock fd v))" and "pair_ends (snd (sendmsg n sock fd v)) = pair_ends v"
proof -
  show "pair_ends (snd (sendmsg n sock fd v)) = pair_ends v"
    by (simp add: sendmsg_def pair_ends_def ends_enqueue split: option.splits)
  show "kernel_ok (snd (sendmsg n sock fd v))"
  proof (cases "map_of (fdtable v) fd")
    case None
    with ok show ?thesis by (simp add: sendmsg_def)
  next
    case (Some f')
    show ?thesis
    proof (cases "sock \<in> wr_end ` set (sockpairs v) \<and> 0 < n")
      case True
      with f [OF Some] ok have "kernel_ok (v \<lparr> sockpairs := enqueue sock (fd_message f') (sockpairs v),
                         sent := sent v @ [(sock, f')] \<rparr>)"
        by (intro kernel_ok_sent) simp_all
      with Some True show ?thesis by (simp add: sendmsg_def)
    next
      case False
      with Some ok show ?thesis by (auto simp: sendmsg_def)
    qed
  qed
qed

lemma accept_body_kernel_ok:
  assumes ok: "kernel_ok w" and fresh: "fst a \<notin> fst ` set (fdtable w)"
  shows "kernel_ok (snd (accept_body h sock a n w))"
proof -
  obtain cs err where a: "a = (cs, err)" by (cases a)
  let ?w0 = "accepted a w"
  have ok0: "kernel_ok ?w0"
    using ok fresh by (simp add: accepted_def kernel_ok_new_descriptor)
  have tbl0: "map_of (fdtable ?w0) cs = (if 0 \<le> cs then Some (files w) else None)"
    using fresh a by (auto simp: accepted_def new_descriptor_def map_of_eq_None_iff)
  let ?w2 = "(debug h ''Connection accepted'' ?w0) \<lparr> stderr :=
      stderr (debug h ''Connection accepted'' ?w0) @ [SendingFd cs] \<rparr>"
  let ?w3 = "snd (sendmsg n sock cs ?w2)"
  have ok2: "kernel_ok ?w2" using ok0 by simp
  have newer: "(\<forall>e \<in> set (sent ?w2). snd e < f) \<and> f < files ?w2"
    if "map_of (fdtable ?w2) cs = Some f" for f
  proof -
    from that tbl0 have cs: "0 \<le> cs" and f: "f = files w" by (simp_all split: if_splits)
    from cs a have "files ?w2 = Suc (files w)" "sent ?w2 = sent w"
      by (simp_all add: accepted_def new_descriptor_def)
    with f kernel_okD(9) [OF ok] show ?thesis by auto
  qed
  note s3 = sendmsg_kernel_ok [where n = n and sock = sock and fd = cs and v = ?w2, OF ok2 newer]
  have ends3: "pair_ends ?w3 = pair_ends w" using s3(2) by (simp add: accepted_def)
  have inst3: "installed ?w3 = installed w" by (simp add: accepted_def)
  from fresh a kernel_okD(3) [OF ok] have e: "cs \<notin> set (pair_ends ?w3)" unfolding ends3 by auto
  from fresh a installed_open [OF ok] have i: "cs \<notin> (\<lambda>e. fst (snd e)) ` set (installed ?w3)"
    unfolding inst3 by auto
  have closeable: "kernel_ok (close_descriptor cs (v \<lparr> closed := c \<rparr>))"
    if "kernel_ok v" "pair_ends v = pair_ends ?w3" "installed v = installed ?w3" for v c
    using that e i by (intro kernel_ok_close_descriptor) simp_all
  let ?w4f = "debug h ''Send fd failed'' ?w3" and ?w4s = "debug h ''Sent fd.'' ?w3"
  have plain: "kernel_ok ?w4f" "kernel_ok ?w4s" using s3(1) by simp_all
  have closed: "kernel_ok (close_descriptor cs (?w4f \<lparr> closed := c \<rparr>))"
    "kernel_ok (close_descriptor cs (?w4s \<lparr> closed := c \<rparr>))" for c
    using s3(1) by (intro closeable; simp)+
  show ?thesis
  proof (cases "cs < 0")
    case nonneg: False
    with plain closed a show ?thesis
      by (simp add: accept_body_def Let_def send_fd_def case_prod_beta)
  next
    case True
    show ?thesis
    proof (cases "err = EINTR")
      case False
      with True a ok show ?thesis by (simp add: accept_body_def accepted_def)
    next
      case eintr: True
      show ?thesis
      proof (cases "cs = - 1")
        case True
        with eintr a ok show ?thesis by (simp add: accept_body_def accepted_def)
      next
        case False
        with eintr plain closed a show ?thesis
          by (simp add: accept_body_def Let_def send_fd_def case_prod_beta)
      qed
    qed
  qed
qed

lemma startup_kernel_ok:
  assumes "kernel_ok w" and "socket_res r \<notin> fst ` set (fdtable w)"
  shows "kernel_ok (socketserver_thread_startup h r t w)"
proof -
  have "kernel_ok (new_descriptor (socket_res r) (read_sock t w))"
    using assms by (intro kernel_ok_new_descriptor) (simp_all add: read_sock_def)
  with assms(1) show ?thesis
    by (simp add: socketserver_thread_startup_def Let_def)
qed

section \<open>Ports that were never served\<close>


lemma set_map_port_of: "map port_of ps' = map port_of ps \<Longrightarrow> port_of ` set ps' = port_of ` set ps"
  by (metis list.set_map)

lemma map_port_of_channel:
  "map port_of (ps[d := (ps ! d) \<lparr> targs := (targs (ps ! d)) \<lparr> targs_in := a \<rparr>, out := b \<rparr>]) = map port_of ps"
  using map_port_of_update [of "\<lambda>p. p \<lparr> targs := (targs p) \<lparr> targs_in := a \<rparr>, out := b \<rparr>" ps d]
  by (simp add: port_of_def)

lemma server_register_cdata:
  assumes "server_register ip os q w = Inr (rc, w')"
    and "socketserver_getPort (cdata w) q True = (r, cd)"
  shows "map port_of (ports (cdata w')) = map port_of (ports cd)"
proof (cases r)
  case None
  with assms show ?thesis by (simp add: server_register_def)
next
  case (Some d)
  show ?thesis
  proof (cases "targs_in (targs (ports cd ! d)) = - 1")
    case False
    with assms Some have "w' = w \<lparr> cdata := cd \<rparr>" by (simp add: server_register_def)
    then show ?thesis by simp
  next
    case True
    show ?thesis
    proof (cases "socketpair_res os")
      case None
      with assms Some True have "cdata w' = cd"
        by (auto simp: server_register_def Tcl_AddErrorInfo_def)
      then show ?thesis by simp
    next
      case (Some pair)
      obtain s0 s1 where pair: "pair = (s0, s1)" by (cases pair)
      from assms \<open>r = Some d\<close> True Some pair
      have "cdata w' = cd \<lparr> ports := (ports cd)[d := (ports cd ! d)
              \<lparr> targs := (targs (ports cd ! d)) \<lparr> targs_in := int s0 \<rparr>, out := int s1 \<rparr>] \<rparr>"
        by (cases "pthread_create_res os = 0")
          (auto simp: server_register_def Let_def update_port_def Tcl_AddErrorInfo_def)
      then show ?thesis by (simp add: map_port_of_channel)
    qed
  qed
qed

lemma server_register_ports:
  assumes "server_register ip os q w = Inr (rc, w')"
  shows "port_of ` set (ports (cdata w')) \<subseteq> insert q (port_of ` set (ports (cdata w)))"
proof (cases rule: getPort_cases [of "cdata w" q True])
  case (found d)
  from server_register_cdata [OF assms found(2)]
  have "port_of ` set (ports (cdata w')) = port_of ` set (ports (cdata w))"
    by (rule set_map_port_of)
  then show ?thesis by auto
next
  case created
  let ?rp = "default_port (ports (cdata w)) q"
  have rp: "?rp = q"
  proof (cases "q = 0 \<and> ports (cdata w) \<noteq> []")
    case True
    then have "?rp = port_of (hd (ports (cdata w)))"
      by (cases "ports (cdata w)") (simp_all add: default_port_def port_of_def)
    with True created(1) show ?thesis by (cases "ports (cdata w)") auto
  next
    case False
    then show ?thesis by (cases "ports (cdata w)") (auto simp: default_port_def)
  qed
  have "map port_of (ports (cdata w')) = map port_of (ports (cdata w) @ [new_port ?rp])"
    using server_register_cdata [OF assms created(3)] by simp
  from set_map_port_of [OF this] rp show ?thesis by auto
next
  case missing
  then show ?thesis by simp
qed

lemma client_register_ports:
  assumes "client_register ip tid port cb w = Inr (rc, w')"
  shows "port_of ` set (ports (cdata w')) = port_of ` set (ports (cdata w))"
proof (cases rule: getPort_cases [of "cdata w" port False])
  case (found d)
  from client_register_effect [OF found(2), of ip tid cb] assms
  have len: "length (ports (cdata w')) = length (ports (cdata w))"
    and other: "\<forall>e. e \<noteq> d \<longrightarrow> ports (cdata w') ! e = ports (cdata w) ! e"
    and same: "targs (ports (cdata w') ! d) = targs (ports (cdata w) ! d)"
    by auto
  have "port_of (ports (cdata w') ! e) = port_of (ports (cdata w) ! e)" for e
    using other same by (cases "e = d") (simp_all add: port_of_def)
  with len have "map port_of (ports (cdata w')) = map port_of (ports (cdata w))"
    by (simp add: list_eq_iff_nth_eq)
  then show ?thesis by (rule set_map_port_of)
next
  case created
  then show ?thesis by simp
next
  case missing
  with assms show ?thesis by (auto simp: client_register_def Tcl_AddErrorInfo_def)
qed

lemma cmd_never_served:
  assumes "socketserverObjCmd h ip tid os objv w = Inr (rc, w')"
    and "\<not> is_server_cmd p (Command ip tid os objv)"
    and "p \<notin> port_of ` set (ports (cdata w))"
  shows "p \<notin> port_of ` set (ports (cdata w'))"
proof -
  from assms(1) have "cdata w' = cdata w \<or>
      (\<exists>q. length objv = 3 \<and> obj_str (objv ! 1) = ''server'' \<and> obj_int (objv ! 2) = Some q \<and>
           server_register ip os q w = Inr (rc, w')) \<or>
      (\<exists>port cb. client_register ip tid port cb w = Inr (rc, w'))"
    by (auto simp: socketserverObjCmd_def Let_def Tcl_AddErrorInfo_def
        split: if_splits option.splits)
  then show ?thesis
  proof (elim disjE exE conjE)
    assume "cdata w' = cdata w"
    with assms(3) show ?thesis by simp
  next
    fix q assume q: "length objv = 3" "obj_str (objv ! 1) = ''server''" "obj_int (objv ! 2) = Some q"
      and reg: "server_register ip os q w = Inr (rc, w')"
    from q assms(2) have "q \<noteq> p" by (auto simp: is_server_cmd_def)
    with server_register_ports [OF reg] assms(3) show ?thesis by auto
  next
    fix port cb assume "client_register ip tid port cb w = Inr (rc, w')"
    from client_register_ports [OF this] assms(3) show ?thesis by simp
  qed
qed

lemma run_commands_never_served:
  assumes "\<forall>c \<in> set cs. is_command c \<and> \<not> is_server_cmd p c"
    and "p \<notin> port_of ` set (ports (cdata w))" and "run h cs w = Inr w'"
  shows "p \<notin> port_of ` set (ports (cdata w'))"
  using assms
proof (induction cs arbitrary: w)
  case Nil
  then show ?case by simp
next
  case (Cons c cs)
  from Cons.prems(1) obtain ip tid os objv where c: "c = Command ip tid os objv"
    by (cases c) (auto simp: is_command_def)
  from Cons.prems(3) c obtain rc w1 where
    w1: "socketserverObjCmd h ip tid os objv w = Inr (rc, w1)" and rest: "run h cs w1 = Inr w'"
    by (auto simp: step_def split: sum.splits)
  from cmd_never_served [OF w1 _ Cons.prems(2)] Cons.prems(1) c
  have "p \<notin> port_of ` set (ports (cdata w1))" by simp
  from Cons.IH [OF _ this rest] Cons.prems(1) show ?case by simp
qed

lemma set_active_ports: "port_of ` set (ports (cdata (set_active d v w))) = port_of ` set (ports (cdata w))"
proof -
  have "map port_of (ports (cdata (set_active d v w))) = map port_of (ports (cdata w))"
    unfolding set_active_def
    using map_port_of_update [of "\<lambda>p. p \<lparr> active := v \<rparr>" "ports (cdata w)" d]
    by (simp add: port_of_def)
  then show ?thesis by (rule set_map_port_of)
qed

lemma step_never_served:
  assumes scripts: "scripts_run h (\<lambda>c. \<not> is_server_cmd p c)"
    and a: "\<not> is_server_cmd p a"
    and I: "p \<notin> port_of ` set (ports (cdata w))"
    and st: "step h a w = Inr w'"
  shows "p \<notin> port_of ` set (ports (cdata w'))"
proof (cases a)
  case (Command ip tid os objv)
  with st obtain rc where "socketserverObjCmd h ip tid os objv w = Inr (rc, w')"
    by (auto simp: step_def split: sum.splits)
  from cmd_never_served [OF this _ I] a Command show ?thesis by simp
next
  case (ThreadStart t r)
  with st I show ?thesis by (auto simp: step_def split: if_splits)
next
  case (ThreadAccept t res n)
  with st I show ?thesis by (auto simp: step_ThreadAccept accept_body_frame split: if_splits)
next
  case (ChannelReadable k)
  with st I show ?thesis by (auto simp: step_def dest: readable_cdata split: if_splits)
next
  case (ServiceEvent e flt)
  show ?thesis
  proof (cases "e \<in> snd ` set (events w)")
    case False
    with st ServiceEvent I show ?thesis by (simp add: step_def)
  next
    case True
    with st ServiceEvent obtain rc where ep: "socketserver_EventProc h flt e w = Inr (rc, w')"
      by (auto simp: step_def split: sum.splits)
    from ep show ?thesis
    proof (cases rule: EventProc_cases)
      case idle
      with I show ?thesis by simp
    next
      case (rearm w0)
      from rearm(4) have "cdata w0 = cdata w" by auto
      with rearm(5) I show ?thesis
        using set_active_ports [of e 1 w0] by simp
    next
      case (drained fd sp m)
      let ?w0 = "set_active e 0 (taken (out (ports (cdata w) ! e)) m w)"
      have I0: "p \<notin> port_of ` set (ports (cdata ?w0))"
        using I set_active_ports [of e 0 "taken (out (ports (cdata w) ! e)) m w"]
        by simp
      from drained(8) show ?thesis
      proof (cases rule: deliver_cases)
        case noname
        with I0 show ?thesis by simp
      next
        case (called cb)
        let ?pre = "?w0 \<lparr> tcl_channels := tcl_channels ?w0 @ [fd],
               registered := registered ?w0 @ [(interp (ports (cdata ?w0) ! e), Suc (length (tcl_channels ?w0)))],
               evals := evals ?w0 @ [(interp (ports (cdata ?w0) ! e), cb @ '' '' @ Tcl_GetChannelName h fd)] \<rparr>"
        from called(4) have w': "w' = snd (Tcl_Eval h (interp (ports (cdata ?w0) ! e))
              (cb @ '' '' @ Tcl_GetChannelName h fd) ?pre)"
          by (metis snd_conv)
        from scripts obtain cs where cs: "\<forall>c \<in> set cs. is_command c \<and> \<not> is_server_cmd p c"
          and run: "run h cs ?pre = Inr w'"
          unfolding scripts_run_def w' by blast
        from I0 have "p \<notin> port_of ` set (ports (cdata ?pre))" by simp
        from run_commands_never_served [OF cs this run] show ?thesis .
      qed
    qed
  qed
qed

lemma run_never_served:
  assumes scripts: "scripts_run h (\<lambda>c. \<not> is_server_cmd p c)"
    and "\<forall>a \<in> set as. \<not> is_server_cmd p a"
    and "p \<notin> port_of ` set (ports (cdata w))" and "run h as w = Inr w'"
  shows "p \<notin> port_of ` set (ports (cdata w'))"
  using assms(2-)
proof (induction as arbitrary: w)
  case Nil
  then show ?case by simp
next
  case (Cons a as)
  from Cons.prems(3) obtain w1 where w1: "step h a w = Inr w1" and rest: "run h as w1 = Inr w'"
    by (auto split: sum.splits)
  from step_never_served [OF scripts _ Cons.prems(2) w1] Cons.prems(1)
  have "p \<notin> port_of ` set (ports (cdata w1))" by simp
  from Cons.IH [OF _ this rest] Cons.prems(1) show ?case by simp
qed

section \<open>Repeated \<^verbatim>\<open>server\<close> commands\<close>








section \<open>Claims about the registry\<close>

text \<open>
  C5. For every registry and port argument, the lookup first resolves port 0 to the port
  of the first registered entry if there is one (and keeps the literal 0 otherwise).
  If an entry with the resolved port exists, the first such entry is returned and the
  registry is unchanged, in both modes. If none exists, create mode appends one new
  entry, zero-initialised except for its key (the resolved port) and the marker
  \<open>in = -1\<close> that says no channel exists yet, and returns it; find mode creates nothing
  and reports not-found.
\<close>

theorem getPort_contract:
  "default_port (ports cd) port =
     (if port = 0 \<and> ports cd \<noteq> [] then port_of (hd (ports cd)) else port) \<and>
   (default_port (ports cd) port \<in> port_of ` set (ports cd) \<longrightarrow>
      (\<exists>k. socketserver_getPort cd port allocate = (Some k, cd) \<and>
           k < length (ports cd) \<and> port_of (ports cd ! k) = default_port (ports cd) port \<and>
           (\<forall>j < k. port_of (ports cd ! j) \<noteq> default_port (ports cd) port))) \<and>
   (default_port (ports cd) port \<notin> port_of ` set (ports cd) \<and> allocate \<longrightarrow>
      socketserver_getPort cd port allocate =
        (Some (length (ports cd)),
         cd \<lparr> ports := ports cd @ [new_port (default_port (ports cd) port)] \<rparr>) \<and>
      new_port (default_port (ports cd) port) =
        \<lparr> targs = \<lparr> targs_in = - 1, targs_port = default_port (ports cd) port \<rparr>,
          out = 0, channel = 0, have_channel = 0, active = 0, interp = 0, threadId = 0,
          callback = None, scriptLen = 0 \<rparr>) \<and>
   (default_port (ports cd) port \<notin> port_of ` set (ports cd) \<and> \<not> allocate \<longrightarrow>
      socketserver_getPort cd port allocate = (None, cd))"
proof -
  let ?ps = "ports cd" and ?rp = "default_port (ports cd) port"
  have dp: "?rp = (if port = 0 \<and> ?ps \<noteq> [] then port_of (hd ?ps) else port)"
    by (cases ?ps) (simp_all add: default_port_def port_of_def)
  have found: "\<exists>k. socketserver_getPort cd port allocate = (Some k, cd) \<and>
           k < length ?ps \<and> port_of (?ps ! k) = ?rp \<and> (\<forall>j < k. port_of (?ps ! j) \<noteq> ?rp)"
    if "?rp \<in> port_of ` set ?ps"
  proof -
    from that obtain k where k: "search_port 0 ?ps ?rp = Some k"
      using search_port_found by blast
    from search_port_first [OF k] k show ?thesis
      by (simp add: socketserver_getPort_def)
  qed
  have created: "socketserver_getPort cd port allocate =
        (Some (length ?ps), cd \<lparr> ports := ?ps @ [new_port ?rp] \<rparr>)"
    if "?rp \<notin> port_of ` set ?ps" and allocate
  proof -
    from that(1) have "search_port 0 ?ps ?rp = None" by (simp add: search_port_None)
    with that(2) show ?thesis
      by (simp add: socketserver_getPort_def link_port_append)
  qed
  have fresh: "new_port ?rp =
        \<lparr> targs = \<lparr> targs_in = - 1, targs_port = ?rp \<rparr>,
          out = 0, channel = 0, have_channel = 0, active = 0, interp = 0, threadId = 0,
          callback = None, scriptLen = 0 \<rparr>"
    by (simp add: new_port_def zeroed_port_def)
  have missing: "socketserver_getPort cd port allocate = (None, cd)"
    if "?rp \<notin> port_of ` set ?ps" and "\<not> allocate"
  proof -
    from that(1) have "search_port 0 ?ps ?rp = None" by (simp add: search_port_None)
    with that(2) show ?thesis
      by (simp add: socketserver_getPort_def)
  qed
  from dp found created fresh missing show ?thesis by blast
qed

theorem getPort_contract_witness:
  "socketserver_getPort two_ports 0 False = (Some 0, two_ports) \<and>
   socketserver_getPort two_ports 9090 True = (Some 1, two_ports) \<and>
   socketserver_getPort two_ports 7 True =
     (Some 2, two_ports \<lparr> ports := [new_port 8080, new_port 9090, new_port 7] \<rparr>) \<and>
   socketserver_getPort two_ports 7 False = (None, two_ports)"
  using getPort_contract [of two_ports 0 False] getPort_contract [of two_ports 9090 True]
    getPort_contract [of two_ports 7 True] getPort_contract [of two_ports 7 False]
  by (simp add: two_ports_def default_port_def port_of_def new_port_def zeroed_port_def
      socketserver_getPort_def link_port_def)
section \<open>Claims about registration\<close>




text \<open>
  C7. Take any state reached from the empty registry in which no \<^verbatim>\<open>server\<close>
  command for the port was ever run, by the host or by a callback script (and, when the
  port is the default 0, in which the registry is empty). A \<^verbatim>\<open>client\<close> command for
  that port fails: it returns \<^verbatim>\<open>TCL_ERROR\<close> with the message that no structure
  exists for the port, and apart from that message being added to the error information
  nothing changes; the registry and its entries are the same.
\<close>

theorem client_unknown_port:
  assumes scripts: "scripts_run h (\<lambda>c. \<not> is_server_cmd port c)"
    and reach: "run h as (initial_world (SOCKETSERVER_OBJECT_MAGIC h)) = Inr w"
    and never: "\<forall>a \<in> set as. \<not> is_server_cmd port a"
    and default: "port = 0 \<longrightarrow> ports (cdata w) = []"
    and client: "obj_str (objv ! 1) = ''client''"
      "(length objv = 5 \<and> obj_int (objv ! 3) = Some port) \<or> (length objv = 3 \<and> port = 0)"
  shows "\<exists>w'. socketserverObjCmd h ip tid os objv w = Inr (TCL_ERROR, w') \<and>
              w' = w \<lparr> errorInfo := errorInfo w @
                        [(ip, ''Could not find socketserver structure for port'')] \<rparr> \<and>
              cdata w' = cdata w \<and> ports (cdata w') = ports (cdata w)"
proof -
  have all: "scripts_run h (\<lambda>c. True)"
    using scripts unfolding scripts_run_def by blast
  have "flags_clear (SOCKETSERVER_OBJECT_MAGIC h) w"
    using all initial_flags_clear reach by (rule run_flags_clear)
  then have magic: "object_magic (cdata w) = SOCKETSERVER_OBJECT_MAGIC h"
    by (simp add: flags_clear_def)
  have "port \<notin> port_of ` set (ports (cdata (initial_world (SOCKETSERVER_OBJECT_MAGIC h))))"
    by (simp add: initial_world_def)
  with scripts never have absent: "port \<notin> port_of ` set (ports (cdata w))"
    using reach by (rule run_never_served)
  from magic client(1) client(2) absent default show ?thesis
    by (rule client_missing_entry)
qed

theorem client_unknown_port_witness:
  "run quiet_host [Command 1 1 (os_ok 3 4) server_8080] (initial_world 42) = Inr served_world \<and>
   socketserverObjCmd quiet_host 1 1 (os_ok 5 6)
     [word ''socketserver'', word ''client'', word ''-port'', number ''9090'' 9090, word ''handler'']
     served_world
   = Inr (TCL_ERROR, served_world \<lparr> errorInfo :=
           [(1, ''Could not find socketserver structure for port'')] \<rparr>) \<and>
   socketserverObjCmd quiet_host 1 1 (os_ok 5 6) client_handler (initial_world 42)
   = Inr (TCL_ERROR, initial_world 42 \<lparr> errorInfo :=
           [(1, ''Could not find socketserver structure for port'')] \<rparr>)"
proof -
  have q: "SOCKETSERVER_OBJECT_MAGIC quiet_host = 42" by (simp add: quiet_host_def)
  have reach: "run quiet_host [Command 1 1 (os_ok 3 4) server_8080]
      (initial_world (SOCKETSERVER_OBJECT_MAGIC quiet_host)) = Inr served_world"
    by (simp add: step_def socketserverObjCmd_def server_register_def socketserver_getPort_def
        default_port_def link_port_def new_port_def zeroed_port_def update_port_def
        initial_world_def served_world_def server_8080_def word_def number_def os_ok_def
        quiet_host_def TCL_OK_def new_descriptor_def)
  have never: "\<forall>a \<in> set [Command 1 1 (os_ok 3 4) server_8080]. \<not> is_server_cmd 9090 a"
    by (simp add: is_server_cmd_def server_8080_def word_def number_def)
  have start: "run quiet_host [] (initial_world (SOCKETSERVER_OBJECT_MAGIC quiet_host))
      = Inr (initial_world 42)"
    by (simp add: q)
  have a: "(9090::int) = 0 \<longrightarrow> ports (cdata served_world) = []"
    "(0::int) = 0 \<longrightarrow> ports (cdata (initial_world 42)) = []"
    "\<forall>a \<in> set []. \<not> is_server_cmd 0 a"
    by (simp_all add: initial_world_def)
  let ?objv = "[word ''socketserver'', word ''client'', word ''-port'', number ''9090'' 9090, word ''handler'']"
  have c5: "obj_str (?objv ! 1) = ''client''"
    "(length ?objv = 5 \<and> obj_int (?objv ! 3) = Some 9090) \<or> (length ?objv = 3 \<and> (9090::int) = 0)"
    by (simp_all add: word_def number_def)
  have c3: "obj_str (client_handler ! 1) = ''client''"
    "(length client_handler = 5 \<and> obj_int (client_handler ! 3) = Some 0) \<or>
     (length client_handler = 3 \<and> (0::int) = 0)"
    by (simp_all add: client_handler_def word_def)
  from client_unknown_port [OF quiet_host_scripts reach never a(1) c5, of 1 1 "os_ok 5 6"]
    client_unknown_port [OF quiet_host_scripts start a(3) a(2) c3, of 1 1 "os_ok 5 6"]
    reach q
  show ?thesis by (simp add: served_world_def initial_world_def)
qed
section \<open>Claims about the acceptor\<close>

text \<open>
  C8, as stated, fails. The claim says that an accept failure other than \<^verbatim>\<open>EINTR\<close>
  is logged. The only thing done with such a failure is the call
  \<^verbatim>\<open>debug("accept failed")\<close>, and \<^verbatim>\<open>debug\<close> writes only when the file is
  compiled with \<^verbatim>\<open>SOCKETSERVER_DEBUG\<close>. Here it is not: \<^verbatim>\<open>accept\<close> fails with
  \<^verbatim>\<open>EMFILE\<close>, and the pass through the loop leaves standard error, and the whole
  state, as it was.
\<close>

theorem accept_failure_not_logged:
  "\<not> SOCKETSERVER_DEBUG quiet_host \<and>
   accept_body quiet_host 3 (- 1, EMFILE) 0 accepting_world = (Continue, accepting_world) \<and>
   step quiet_host (ThreadAccept 0 (- 1, EMFILE) 0) accepting_world = Inr accepting_world \<and>
   stderr accepting_world = []"
  by (simp add: step_def accept_body_def accepted_def debug_def quiet_host_def
      accepting_world_def served_world_def)

text \<open>
  C8, amended. Once an acceptor is in its accept loop it stays there: every pass of the
  loop body, whatever \<^verbatim>\<open>accept\<close> and \<^verbatim>\<open>sendmsg\<close> return, ends by going to the
  next pass, so after any number of results the thread is still in the loop. A pass in
  which \<^verbatim>\<open>accept\<close> fails with \<^verbatim>\<open>EINTR\<close> changes nothing (silent retry). A
  pass in which it fails otherwise is retried too, and is logged only in a build with
  \<^verbatim>\<open>SOCKETSERVER_DEBUG\<close>: there it adds the line "accept failed" to standard
  error, in any other build it changes nothing. A successful \<^verbatim>\<open>accept\<close> announces
  the descriptor on standard error and sends it: when \<^verbatim>\<open>sendmsg\<close> succeeds the
  new connection is queued on the socket pair.
\<close>

theorem accept_loop_never_exits:
  assumes "t < length (threads w)" and "phase (threads w ! t) = Accepting"
  shows "(\<exists>w'. run h (accept_actions t rs) w = Inr w' \<and>
            accept_loop h (thread_sock (threads w ! t)) rs w = (Continue, w') \<and>
            threads w' = threads w \<and> phase (threads w' ! t) = Accepting) \<and>
         fst (accept_body h sock a n w) = Continue \<and>
         accept_body h sock (- 1, EINTR) n w = (Continue, w) \<and>
         (client_sock < 0 \<and> err \<noteq> EINTR \<longrightarrow>
            accept_body h sock (client_sock, err) n w =
              (Continue,
               if SOCKETSERVER_DEBUG h then w \<lparr> stderr := stderr w @ [DebugMsg ''accept failed''] \<rparr>
               else w)) \<and>
         (0 \<le> client_sock \<longrightarrow>
            sockpairs (snd (accept_body h sock (client_sock, err) n w)) =
              (if 0 < n then enqueue sock (fd_message (files w)) (sockpairs w) else sockpairs w) \<and>
            SendingFd client_sock \<in> set (stderr (snd (accept_body h sock (client_sock, err) n w))))"
proof -
  let ?loop = "accept_loop h (thread_sock (threads w ! t)) rs w"
  have "run h (accept_actions t rs) w = Inr (snd ?loop)"
    using assms by (rule run_accept_actions)
  moreover have "?loop = (Continue, snd ?loop)"
    using accept_loop_continue [of h "thread_sock (threads w ! t)" rs w]
    by (cases ?loop) simp
  moreover have "threads (snd ?loop) = threads w" by (rule accept_loop_threads)
  ultimately have loop: "\<exists>w'. run h (accept_actions t rs) w = Inr w' \<and>
            accept_loop h (thread_sock (threads w ! t)) rs w = (Continue, w') \<and>
            threads w' = threads w \<and> phase (threads w' ! t) = Accepting"
    using assms(2) by auto
  have next_pass: "fst (accept_body h sock a n w) = Continue"
    by (rule accept_body_continue)
  have eintr: "accept_body h sock (- 1, EINTR) n w = (Continue, w)"
    by (simp add: accept_body_def accepted_def)
  have other: "accept_body h sock (client_sock, err) n w =
              (Continue,
               if SOCKETSERVER_DEBUG h then w \<lparr> stderr := stderr w @ [DebugMsg ''accept failed''] \<rparr>
               else w)"
    if "client_sock < 0 \<and> err \<noteq> EINTR"
    using that by (simp add: accept_body_def accepted_def debug_def)
  have sending: "sockpairs (snd (accept_body h sock (client_sock, err) n w)) =
              (if 0 < n then enqueue sock (fd_message (files w)) (sockpairs w) else sockpairs w) \<and>
            SendingFd client_sock \<in> set (stderr (snd (accept_body h sock (client_sock, err) n w)))"
    if "0 \<le> client_sock"
    using that
    by (simp add: accept_body_def accepted_def new_descriptor_def send_fd_def sendmsg_def
        debug_def Let_def enqueue_absent)
  from loop next_pass eintr other sending show ?thesis by blast
qed

theorem accept_loop_never_exits_witness:
  "run quiet_host (accept_actions 0 [((- 1, EINTR), 0), ((- 1, EMFILE), 0), ((6, EINTR), 1)]) accepting_world
     = Inr (accepting_world \<lparr> sockpairs := [\<lparr> wr_end = 3, rd_end = 4, pending = [fd_message 6] \<rparr>],
                              closed := [6], stderr := [SendingFd 6], files := 7,
                              sent := [(3, 6)] \<rparr>) \<and>
   phase (threads accepting_world ! 0) = Accepting \<and>
   accept_body debug_host 3 (- 1, EMFILE) 0 accepting_world =
     (Continue, accepting_world \<lparr> stderr := [DebugMsg ''accept failed''] \<rparr>) \<and>
   accept_body quiet_host 3 (- 1, EMFILE) 0 accepting_world = (Continue, accepting_world) \<and>
   sockpairs (snd (accept_body quiet_host 3 (6, EINTR) 1 accepting_world)) =
     [\<lparr> wr_end = 3, rd_end = 4, pending = [fd_message 6] \<rparr>]"
proof -
  have t: "0 < length (threads accepting_world)" "phase (threads accepting_world ! 0) = Accepting"
    by (simp_all add: accepting_world_def served_world_def)
  have loop: "accept_loop quiet_host 3 [((- 1, EINTR), 0), ((- 1, EMFILE), 0), ((6, EINTR), 1)]
        accepting_world
      = (Continue,
         accepting_world \<lparr> sockpairs := [\<lparr> wr_end = 3, rd_end = 4, pending = [fd_message 6] \<rparr>],
                           closed := [6], stderr := [SendingFd 6], files := 7,
                           sent := [(3, 6)] \<rparr>)"
    by (simp add: accepting_world_def served_world_def accept_body_def accepted_def
        new_descriptor_def close_descriptor_def send_fd_def sendmsg_def debug_def
        quiet_host_def fd_message_def)
  have ts: "thread_sock (threads accepting_world ! 0) = 3"
    by (simp add: accepting_world_def served_world_def)
  note quiet = accept_loop_never_exits [OF t, of quiet_host
      "[((- 1, EINTR), 0), ((- 1, EMFILE), 0), ((6, EINTR), 1)]" 3 "(- 1, EMFILE)" 0 "- 1" EMFILE]
  from quiet obtain w' where
    "run quiet_host (accept_actions 0 [((- 1, EINTR), 0), ((- 1, EMFILE), 0), ((6, EINTR), 1)])
       accepting_world = Inr w'"
    "accept_loop quiet_host (thread_sock (threads accepting_world ! 0))
       [((- 1, EINTR), 0), ((- 1, EMFILE), 0), ((6, EINTR), 1)] accepting_world = (Continue, w')"
    by blast
  with ts loop have run: "run quiet_host
      (accept_actions 0 [((- 1, EINTR), 0), ((- 1, EMFILE), 0), ((6, EINTR), 1)]) accepting_world
      = Inr (accepting_world \<lparr> sockpairs := [\<lparr> wr_end = 3, rd_end = 4, pending = [fd_message 6] \<rparr>],
                              closed := [6], stderr := [SendingFd 6], files := 7,
                              sent := [(3, 6)] \<rparr>)"
    by simp
  from quiet have silent: "accept_body quiet_host 3 (- 1, EMFILE) 0 accepting_world
      = (Continue, accepting_world)"
    by (simp add: quiet_host_def)
  from accept_loop_never_exits [OF t, of debug_host "[]" 3 "(- 1, EMFILE)" 0 "- 1" EMFILE]
  have logged: "accept_body debug_host 3 (- 1, EMFILE) 0 accepting_world =
      (Continue, accepting_world \<lparr> stderr := [DebugMsg ''accept failed''] \<rparr>)"
    by (simp add: debug_host_def accepting_world_def served_world_def)
  from accept_loop_never_exits [OF t, of quiet_host "[]" 3 "(6, EINTR)" 1 6 EINTR]
  have queued: "sockpairs (snd (accept_body quiet_host 3 (6, EINTR) 1 accepting_world)) =
      [\<lparr> wr_end = 3, rd_end = 4, pending = [fd_message 6] \<rparr>]"
    by (simp add: accepting_world_def served_world_def)
  from run t(2) logged silent queued show ?thesis by simp
qed

text \<open>
  C3, as stated, fails. The claim says that a bind or listen failure is returned
  synchronously as an error to the caller of the \<^verbatim>\<open>server\<close> registration. Here
  \<^verbatim>\<open>server 8080\<close> on the empty registry returns \<^verbatim>\<open>TCL_OK\<close>; the thread it
  started then fails to bind and ends with value 1, and no error was or is recorded.
\<close>

theorem bind_failure_unreported:
  "socketserverObjCmd quiet_host 1 1 (os_ok 3 4) server_8080 (initial_world 42)
     = Inr (TCL_OK, served_world) \<and>
   bind_res bind_refused < 0 \<and>
   step quiet_host (ThreadStart 0 bind_refused) served_world
     = Inr (served_world \<lparr> threads := [\<lparr> thread_arg = 0, thread_sock = 3, phase = Exited 1 \<rparr>],
                           fdtable := [(5, 5), (4, 4), (3, 3), (2, 2), (1, 1), (0, 0)],
                           files := 6 \<rparr>) \<and>
   errorInfo served_world = [] \<and> TCL_OK \<noteq> TCL_ERROR"
  by (simp add: socketserverObjCmd_def server_register_def socketserver_getPort_def
      default_port_def link_port_def new_port_def zeroed_port_def update_port_def
      initial_world_def served_world_def server_8080_def word_def number_def os_ok_def
      quiet_host_def bind_refused_def step_def socketserver_thread_startup_def
      set_phase_def read_sock_def debug_def new_descriptor_def Let_def)

text \<open>
  C3, amended. A well-formed \<^verbatim>\<open>server\<close> command always returns, with
  \<^verbatim>\<open>TCL_OK\<close> or \<^verbatim>\<open>TCL_ERROR\<close>, and the error is returned exactly when the
  entry still needs its channel and creating the socket pair or the thread fails. When
  the command has started a thread it has returned \<^verbatim>\<open>TCL_OK\<close>; a bind failure in
  that thread is fatal to the acceptor (the thread ends with value 1 and never reaches
  its accept loop) but is not returned to anyone: the error information and the registry
  stay as the command left them.
\<close>

theorem bind_failure_fatal_not_returned:
  assumes "object_magic (cdata w) = SOCKETSERVER_OBJECT_MAGIC h"
    and "length objv = 3" and "obj_str (objv ! 1) = ''server''" and "obj_int (objv ! 2) = Some port"
  shows "\<exists>rc w1. socketserverObjCmd h ip tid os objv w = Inr (rc, w1) \<and>
           (rc = TCL_OK \<or> rc = TCL_ERROR) \<and>
           (rc = TCL_ERROR \<longleftrightarrow>
              (\<exists>d cd. socketserver_getPort (cdata w) port True = (Some d, cd) \<and>
                      targs_in (targs (ports cd ! d)) = - 1 \<and>
                      (socketpair_res os = None \<or> pthread_create_res os \<noteq> 0))) \<and>
           (threads w1 \<noteq> threads w \<longrightarrow>
              rc = TCL_OK \<and>
              (\<forall>r. bind_res r < 0 \<longrightarrow>
                 (\<exists>w2. step h (ThreadStart (length (threads w)) r) w1 = Inr w2 \<and>
                       phase (threads w2 ! length (threads w)) = Exited 1 \<and>
                       errorInfo w2 = errorInfo w1 \<and> cdata w2 = cdata w1 \<and>
                       (\<forall>rs. run h (accept_actions (length (threads w)) rs) w2 = Inr w2))))"
proof -
  from server_register_total [of ip os port w] obtain rc w1
    where reg: "server_register ip os port w = Inr (rc, w1)" and rc: "rc = TCL_OK \<or> rc = TCL_ERROR"
    by blast
  from assms reg have cmd: "socketserverObjCmd h ip tid os objv w = Inr (rc, w1)"
    by (simp add: server_cmd_unfold)
  note err = server_register_error_iff [OF reg]
  have started: "rc = TCL_OK \<and>
              (\<forall>r. bind_res r < 0 \<longrightarrow>
                 (\<exists>w2. step h (ThreadStart (length (threads w)) r) w1 = Inr w2 \<and>
                       phase (threads w2 ! length (threads w)) = Exited 1 \<and>
                       errorInfo w2 = errorInfo w1 \<and> cdata w2 = cdata w1 \<and>
                       (\<forall>rs. run h (accept_actions (length (threads w)) rs) w2 = Inr w2)))"
    if new: "threads w1 \<noteq> threads w"
  proof -
    let ?t = "length (threads w)"
    from server_register_threads [OF reg] new obtain d
      where ok: "rc = TCL_OK" and d: "d < length (ports (cdata w1))"
        and th: "threads w1 = threads w @ [\<lparr> thread_arg = d, thread_sock = 0, phase = Created \<rparr>]"
      by blast
    from th have t: "?t < length (threads w1)" "phase (threads w1 ! ?t) = Created"
      "thread_arg (threads w1 ! ?t) = d" by simp_all
    have "\<exists>w2. step h (ThreadStart ?t r) w1 = Inr w2 \<and> phase (threads w2 ! ?t) = Exited 1 \<and>
                errorInfo w2 = errorInfo w1 \<and> cdata w2 = cdata w1 \<and>
                (\<forall>rs. run h (accept_actions ?t rs) w2 = Inr w2)"
      if b: "bind_res r < 0" for r
    proof -
      let ?w2 = "socketserver_thread_startup h r ?t w1"
      from t d have st: "step h (ThreadStart ?t r) w1 = Inr ?w2" by (simp add: step_def)
      note sb = startup_bind_failed [OF t(1) b, of h]
      have "run h (accept_actions ?t rs) ?w2 = Inr ?w2" for rs
        by (rule run_accept_actions_not_accepting) (simp add: sb(1))
      with st sb show ?thesis by simp
    qed
    with ok show ?thesis by blast
  qed
  from cmd rc err started show ?thesis by blast
qed

theorem bind_failure_fatal_not_returned_witness:
  "socketserverObjCmd quiet_host 1 1 (os_ok 3 4) server_8080 (initial_world 42)
     = Inr (TCL_OK, served_world) \<and>
   (\<exists>w2. step quiet_host (ThreadStart 0 bind_refused) served_world = Inr w2 \<and>
         phase (threads w2 ! 0) = Exited 1 \<and> errorInfo w2 = [] \<and>
         run quiet_host (accept_actions 0 [((7, EINTR), 1)]) w2 = Inr w2)"
proof -
  have first: "socketserverObjCmd quiet_host 1 1 (os_ok 3 4) server_8080 (initial_world 42)
      = Inr (TCL_OK, served_world)"
    by (simp add: socketserverObjCmd_def server_register_def socketserver_getPort_def
        default_port_def link_port_def new_port_def zeroed_port_def update_port_def
        initial_world_def served_world_def server_8080_def word_def number_def os_ok_def
        quiet_host_def new_descriptor_def)
  have m: "object_magic (cdata (initial_world 42)) = SOCKETSERVER_OBJECT_MAGIC quiet_host"
    by (simp add: initial_world_def quiet_host_def)
  have a: "length server_8080 = 3" "obj_str (server_8080 ! 1) = ''server''"
    "obj_int (server_8080 ! 2) = Some 8080"
    by (simp_all add: server_8080_def word_def number_def)
  have new: "threads served_world \<noteq> threads (initial_world 42)"
    "length (threads (initial_world 42)) = 0" "errorInfo served_world = []"
    "bind_res bind_refused < 0"
    by (simp_all add: served_world_def initial_world_def bind_refused_def)
  from bind_failure_fatal_not_returned [OF m a, of 1 1 "os_ok 3 4"] first new
  have "\<forall>r. bind_res r < 0 \<longrightarrow>
          (\<exists>w2. step quiet_host (ThreadStart 0 r) served_world = Inr w2 \<and>
                phase (threads w2 ! 0) = Exited 1 \<and> errorInfo w2 = [] \<and>
                cdata w2 = cdata served_world \<and>
                (\<forall>rs. run quiet_host (accept_actions 0 rs) w2 = Inr w2))"
    by auto
  with new(4) first show ?thesis by blast
qed

section \<open>Claims about the drain handler\<close>

text \<open>
  C4, as stated, fails. The claim says that the drain tells a broken transport from an
  empty channel and surfaces the former as a failure that leaves the registration
  unusable. Here a receive that fails with \<^verbatim>\<open>ECONNRESET\<close> is answered exactly as
  one that finds nothing: \<^verbatim>\<open>TCL_OK\<close>, no error recorded, the guard armed again and
  the state as before; and the registration remains usable, the next run delivering the
  pending descriptor.
\<close>

theorem broken_transport_not_surfaced:
  "socketserver_EventProc quiet_host (Some ECONNRESET) 0 (pending_world [6])
     = Inr (TCL_OK, pending_world [6]) \<and>
   socketserver_EventProc quiet_host None 0 (pending_world [])
     = Inr (TCL_OK, pending_world []) \<and>
   socketserver_EventProc quiet_host (Some ECONNRESET) 0 (pending_world [])
     = Inr (TCL_OK, pending_world []) \<and>
   errorInfo (pending_world [6]) = [] \<and>
   socketserver_EventProc quiet_host None 0 (pending_world [6]) = Inr (0, drained_world)"
  by code_simp

text \<open>
  C4, amended. The drain does not distinguish receive outcomes: whenever the guard is
  armed and the receive yields no descriptor, be it for an error of the transport (any
  \<^verbatim>\<open>errno\<close>) or because nothing is pending, the handler arms the guard again and
  returns \<^verbatim>\<open>TCL_OK\<close>; no error is recorded, no callback runs, and the consumer
  registration stays as it was.
\<close>

theorem failed_receive_rearms:
  assumes "d < length (ports (cdata w))" and "active (ports (cdata w) ! d) \<noteq> 0"
  shows "socketserver_EventProc h (Some e) d w = Inr (TCL_OK, set_active d 1 w) \<and>
         (recv_fd None (out (ports (cdata w) ! d)) (set_active d 0 w) = Inr (- 1, w') \<longrightarrow>
            socketserver_EventProc h None d w = Inr (TCL_OK, set_active d 1 w')) \<and>
         active (ports (cdata (set_active d 1 w)) ! d) = 1 \<and>
         errorInfo (set_active d 1 w) = errorInfo w \<and> evals (set_active d 1 w) = evals w \<and>
         sockpairs (set_active d 1 w) = sockpairs w \<and> handlers (set_active d 1 w) = handlers w \<and>
         (active (ports (cdata w) ! d) = 1 \<longrightarrow> set_active d 1 w = w)"
  using assms
  by (simp add: EventProc_armed recv_fd_injected set_active_nth set_active_same)

theorem failed_receive_rearms_witness:
  "socketserver_EventProc quiet_host (Some EBADF) 0 (pending_world [6])
     = Inr (TCL_OK, pending_world [6]) \<and>
   socketserver_EventProc quiet_host None 0 (pending_world []) = Inr (TCL_OK, pending_world [])"
proof -
  have a: "0 < length (ports (cdata (pending_world fds)))"
    "active (ports (cdata (pending_world fds)) ! 0) \<noteq> 0"
    "active (ports (cdata (pending_world fds)) ! 0) = 1" for fds
    by (simp_all add: pending_world_def armed_world_def)
  have r: "recv_fd None (out (ports (cdata (pending_world [])) ! 0)) (set_active 0 0 (pending_world []))
      = Inr (- 1, set_active 0 0 (pending_world []))"
    by (simp add: recv_fd_def recvmsg_def pending_world_def armed_world_def set_active_def)
  from failed_receive_rearms [where w = "pending_world [6]" and d = 0 and h = quiet_host
        and e = EBADF, OF a(1,2)]
    failed_receive_rearms [where w = "pending_world []" and d = 0 and h = quiet_host
        and e = EBADF and w' = "set_active 0 0 (pending_world [])", OF a(1,2)]
    r a(3)
  show ?thesis by simp
qed

text \<open>
  C2. Take a port whose guard is armed, whose read end is non-blocking and holds exactly
  one pending descriptor (one message, passing one open file, which the receiver gets
  as descriptor \<open>fd\<close>, the lowest free number), and whose callback script does nothing
  to this extension but run its commands (it may register the consumer again). Running
  the drain handler twice in a row gives exactly one drain: the first run takes the
  descriptor and evaluates the callback once; the second run, whether it finds the guard
  down or finds nothing to receive, returns \<^verbatim>\<open>TCL_OK\<close> and leaves the whole state
  as it was, so the descriptor is never drained twice.
\<close>



theorem double_notification_single_drain:
  assumes scripts: "scripts_run h (\<lambda>c. True)"
    and d: "d < length (ports (cdata w))"
    and chan: "targs_in (targs (ports (cdata w) ! d)) \<noteq> - 1"
    and armed: "active (ports (cdata w) ! d) \<noteq> 0"
    and one: "readable_pair (out (ports (cdata w) ! d)) (sockpairs w) = Some sp"
      "pending sp = [fd_message c]" "fd = lowest_free (fdtable w)"
    and nb: "out (ports (cdata w) ! d) \<in> set (nonblocking w)"
    and cb: "callback (ports (cdata w) ! d) = Some cb" "Tcl_GetChannelName h fd \<noteq> []"
      "length cb + length (Tcl_GetChannelName h fd) + 2 \<le> scriptLen (ports (cdata w) ! d)"
  shows "\<exists>rc w1. socketserver_EventProc h None d w = Inr (rc, w1) \<and>
           evals w1 = evals w @ [(interp (ports (cdata w) ! d), cb @ '' '' @ Tcl_GetChannelName h fd)] \<and>
           readable_pair (out (ports (cdata w) ! d)) (sockpairs w1) = Some (sp \<lparr> pending := [] \<rparr>) \<and>
           (\<forall>flt. socketserver_EventProc h flt d w1 = Inr (TCL_OK, w1))"
proof -
  let ?p = "ports (cdata w) ! d"
  let ?out = "out ?p" and ?ip = "interp ?p"
  let ?script = "cb @ '' '' @ Tcl_GetChannelName h fd"
  let ?w0 = "set_active d 0 (taken ?out (fd_message c) w)"
  let ?pre = "?w0 \<lparr> tcl_channels := tcl_channels ?w0 @ [fd],
                   registered := registered ?w0 @ [(?ip, Suc (length (tcl_channels ?w0)))],
                   evals := evals ?w0 @ [(?ip, ?script)] \<rparr>"
  obtain rc w1 where te: "Tcl_Eval h ?ip ?script ?pre = (rc, w1)" by force
  have p0: "ports (cdata ?w0) ! d = ?p \<lparr> active := 0 \<rparr>"
    using d by (simp add: set_active_nth)
  have recv: "recv_fd None ?out (set_active d 0 w) = Inr (fd, ?w0)"
    using recv_fd_pending [of ?out "set_active d 0 w" sp "fd_message c" "[]"] one
    by (simp add: taken_set_active)
  have fd: "fd \<noteq> - 1" using one(3) by simp
  have del: "deliver h d fd ?w0 = Inr (rc, w1)"
    using deliver_called [of h fd ?w0 d cb] cb p0 te by simp
  have first: "socketserver_EventProc h None d w = Inr (rc, w1)"
    using d armed recv fd del by (simp add: EventProc_armed)
  have kept: "world_kept True ?pre w1"
    using scripts_kept [OF scripts, of True ?pre ?ip ?script] te by simp
  have pre_d: "d < length (ports (cdata ?pre))" "ports (cdata ?pre) ! d = ?p \<lparr> active := 0 \<rparr>"
    using d p0 by simp_all
  from kept pre_d(1) have d1: "d < length (ports (cdata w1))"
    and pk: "port_kept True (ports (cdata ?pre) ! d) (ports (cdata w1) ! d)"
    by (auto simp: world_kept_def)
  from pk pre_d(2) chan have out1: "out (ports (cdata w1) ! d) = ?out"
    and act1: "active (ports (cdata w1) ! d) = 0 \<or> active (ports (cdata w1) ! d) = 1"
    by (auto simp: port_kept_def)
  have ev: "evals w1 = evals w @ [(?ip, ?script)]"
    using kept by (simp add: world_kept_def)
  have "readable_pair ?out (sockpairs ?pre) = Some (sp \<lparr> pending := [] \<rparr>)"
    using readable_pair_dequeue [OF one(1)] one(2) by (simp add: taken_def)
  moreover from kept obtain new where "sockpairs w1 = sockpairs ?pre @ new"
    by (auto simp: world_kept_def)
  ultimately have rp: "readable_pair ?out (sockpairs w1) = Some (sp \<lparr> pending := [] \<rparr>)"
    by (simp add: readable_pair_append)
  have nb1: "?out \<in> set (nonblocking w1)"
    using kept nb by (auto simp: world_kept_def)
  have second: "socketserver_EventProc h flt d w1 = Inr (TCL_OK, w1)" for flt
  proof (cases "active (ports (cdata w1) ! d) = 0")
    case True
    with d1 show ?thesis by (simp add: EventProc_idle)
  next
    case False
    with act1 have a1: "active (ports (cdata w1) ! d) = 1" by simp
    have "recv_fd flt ?out (set_active d 0 w1) = Inr (- 1, set_active d 0 w1)"
      using recv_fd_empty [of ?out "set_active d 0 w1" "sp \<lparr> pending := [] \<rparr>" flt] rp nb1 by simp
    with d1 False out1 have "socketserver_EventProc h flt d w1 = Inr (TCL_OK, set_active d 1 w1)"
      by (simp add: EventProc_armed)
    with d1 a1 show ?thesis by (simp add: set_active_same)
  qed
  from first ev rp second show ?thesis by blast
qed


theorem double_notification_single_drain_witness:
  "socketserver_EventProc quiet_host None 0 (pending_world [6]) = Inr (0, drained_world) \<and>
   socketserver_EventProc quiet_host None 0 drained_world = Inr (TCL_OK, drained_world) \<and>
   socketserver_EventProc quiet_host (Some EINTR) 0 drained_world = Inr (TCL_OK, drained_world) \<and>
   evals drained_world = [(1, ''handler file6'')] \<and>
   socketserver_EventProc rearming_host None 0 (pending_world [6]) = Inr (0, rearmed_world) \<and>
   socketserver_EventProc rearming_host None 0 rearmed_world = Inr (TCL_OK, rearmed_world) \<and>
   active (ports (cdata rearmed_world) ! 0) = 1 \<and>
   evals rearmed_world = [(1, ''handler file6'')]"
proof -
  let ?w = "pending_world [6]"
  let ?sp = "\<lparr> wr_end = 3, rd_end = 4, pending = [fd_message 6] \<rparr>"
  have first: "socketserver_EventProc quiet_host None 0 ?w = Inr (0, drained_world)"
    by code_simp
  have again: "socketserver_EventProc rearming_host None 0 ?w = Inr (0, rearmed_world)"
    by code_simp
  have hyps: "0 < length (ports (cdata ?w))"
    "targs_in (targs (ports (cdata ?w) ! 0)) \<noteq> - 1"
    "active (ports (cdata ?w) ! 0) \<noteq> 0"
    "readable_pair (out (ports (cdata ?w) ! 0)) (sockpairs ?w) = Some ?sp"
    "pending ?sp = [fd_message 6]"
    by (simp_all add: pending_world_def armed_world_def)
  have six: "(6::int) = lowest_free (fdtable ?w)"
    by code_simp
  have more: "out (ports (cdata ?w) ! 0) \<in> set (nonblocking ?w)"
    "callback (ports (cdata ?w) ! 0) = Some ''handler''"
    by (simp_all add: pending_world_def armed_world_def)
  have names: "Tcl_GetChannelName quiet_host 6 \<noteq> []"
    "length ''handler'' + length (Tcl_GetChannelName quiet_host 6) + 2
       \<le> scriptLen (ports (cdata ?w) ! 0)"
    "Tcl_GetChannelName rearming_host 6 \<noteq> []"
    "length ''handler'' + length (Tcl_GetChannelName rearming_host 6) + 2
       \<le> scriptLen (ports (cdata ?w) ! 0)"
    by (simp_all add: pending_world_def armed_world_def quiet_host_def rearming_host_def
        file_name_def decimal.simps)
  from double_notification_single_drain [OF quiet_host_scripts hyps six more names(1,2)] first
  have quiet: "\<forall>flt. socketserver_EventProc quiet_host flt 0 drained_world = Inr (TCL_OK, drained_world)"
    by simp
  from double_notification_single_drain [OF rearming_host_scripts hyps six more names(3,4)] again
  have rearm: "\<forall>flt. socketserver_EventProc rearming_host flt 0 rearmed_world = Inr (TCL_OK, rearmed_world)"
    by simp
  from first again quiet rearm show ?thesis
    by (simp add: drained_world_def rearmed_world_def)
qed
text \<open>
  C10. After a run of the drain handler in which a descriptor was received, the guard of
  the port is down, and as long as no \<^verbatim>\<open>client\<close> command is run (by the host or
  by a callback script) it stays down whatever else happens: other commands, threads
  starting and accepting, readiness notifications, drain handlers of any port with any
  receive outcome. Every run of the drain handler for the port in that time returns
  \<^verbatim>\<open>TCL_OK\<close> and changes nothing. The next \<^verbatim>\<open>client\<close> registration for the
  port sets the guard to 1 again. (The other assignment of 1, on a failed receive, is only
  reached with the guard up.)
\<close>


theorem guard_down_after_drain:
  assumes scripts: "scripts_run h (\<lambda>c. \<not> is_client_cmd c)"
    and armed: "active (ports (cdata w) ! d) \<noteq> 0"
    and received: "recv_fd flt (out (ports (cdata w) ! d)) (set_active d 0 w) = Inr (fd, w0)"
      "fd \<noteq> - 1"
    and drained: "socketserver_EventProc h flt d w = Inr (rc, w1)"
    and later: "\<forall>a \<in> set as. \<not> is_client_cmd a" "run h as w1 = Inr w2"
  shows "d < length (ports (cdata w1)) \<and> active (ports (cdata w1) ! d) = 0 \<and>
         d < length (ports (cdata w2)) \<and> active (ports (cdata w2) ! d) = 0 \<and>
         (\<forall>flt'. socketserver_EventProc h flt' d w2 = Inr (TCL_OK, w2)) \<and>
         (\<forall>as1 flt' as2. as = as1 @ ServiceEvent d flt' # as2 \<longrightarrow>
            (\<exists>wm. run h as1 w1 = Inr wm \<and> step h (ServiceEvent d flt') wm = Inr wm)) \<and>
         (\<forall>ip tid port cb. fst (socketserver_getPort (cdata w2) port False) = Some d \<longrightarrow>
            (\<exists>w3. client_register ip tid port cb w2 = Inr (TCL_OK, w3) \<and>
                  active (ports (cdata w3) ! d) = 1))"
proof -
  from drained have d: "d < length (ports (cdata w))"
    by (auto simp: socketserver_EventProc_def split: if_splits)
  from received(1) have c0: "cdata w0 = cdata (set_active d 0 w)"
    by (cases rule: recv_fd_cases) simp_all
  with d have J0: "d < length (ports (cdata w0))" "active (ports (cdata w0) ! d) = 0"
    by (simp_all add: set_active_def)
  from drained d armed received have del: "deliver h d fd w0 = Inr (rc, w1)"
    by (simp add: EventProc_armed)
  from del have J1: "d < length (ports (cdata w1)) \<and> active (ports (cdata w1) ! d) = 0"
  proof (cases rule: deliver_cases)
    case noname
    with J0 show ?thesis by simp
  next
    case (called cb)
    let ?pre = "w0 \<lparr> tcl_channels := tcl_channels w0 @ [fd],
               registered := registered w0 @ [(interp (ports (cdata w0) ! d), Suc (length (tcl_channels w0)))],
               evals := evals w0 @ [(interp (ports (cdata w0) ! d), cb @ '' '' @ Tcl_GetChannelName h fd)] \<rparr>"
    from called(4) have w1: "w1 = snd (Tcl_Eval h (interp (ports (cdata w0) ! d))
              (cb @ '' '' @ Tcl_GetChannelName h fd) ?pre)"
      by (metis snd_conv)
    have "world_kept False ?pre w1"
      unfolding w1 by (rule scripts_kept [OF scripts]) simp
    with J0 show ?thesis by (auto simp: world_kept_def port_kept_def)
  qed
  have J2: "d < length (ports (cdata w2)) \<and> active (ports (cdata w2) ! d) = 0"
    using run_guard_down [OF scripts later(1) _ _ later(2)] J1 by simp
  have idle: "socketserver_EventProc h flt' d w2 = Inr (TCL_OK, w2)" for flt'
    using J2 by (simp add: EventProc_idle)
  have between: "\<exists>wm. run h as1 w1 = Inr wm \<and> step h (ServiceEvent d flt') wm = Inr wm"
    if split: "as = as1 @ ServiceEvent d flt' # as2" for as1 flt' as2
  proof -
    from later(2) split obtain wm where wm: "run h as1 w1 = Inr wm"
      by (auto simp: run_append split: sum.splits)
    from later(1) split have "\<forall>a \<in> set as1. \<not> is_client_cmd a" by simp
    from run_guard_down [OF scripts this _ _ wm] J1
    have "d < length (ports (cdata wm)) \<and> active (ports (cdata wm) ! d) = 0" by simp
    then have "step h (ServiceEvent d flt') wm = Inr wm"
      by (simp add: step_def EventProc_idle)
    with wm show ?thesis by blast
  qed
  have rearm: "\<exists>w3. client_register ip tid port cb w2 = Inr (TCL_OK, w3) \<and>
                  active (ports (cdata w3) ! d) = 1"
    if "fst (socketserver_getPort (cdata w2) port False) = Some d" for ip tid port cb
  proof -
    from that obtain cd where "socketserver_getPort (cdata w2) port False = (Some d, cd)"
      by (cases "socketserver_getPort (cdata w2) port False") simp
    from client_register_effect [OF this, of ip tid cb] show ?thesis by blast
  qed
  from J1 J2 idle between rearm show ?thesis by blast
qed


theorem guard_down_after_drain_witness:
  "socketserver_EventProc quiet_host None 0 (pending_world [6]) = Inr (0, drained_world) \<and>
   run quiet_host later_actions drained_world = Inr later_world \<and>
   active (ports (cdata later_world) ! 0) = 0 \<and>
   socketserver_EventProc quiet_host None 0 later_world = Inr (TCL_OK, later_world) \<and>
   (\<exists>w3. client_register 1 1 0 ''handler'' later_world = Inr (TCL_OK, w3) \<and>
         active (ports (cdata w3) ! 0) = 1)"
proof -
  let ?w = "pending_world [6]"
  have first: "socketserver_EventProc quiet_host None 0 ?w = Inr (0, drained_world)"
    by code_simp
  have armed: "active (ports (cdata ?w) ! 0) \<noteq> 0"
    by (simp add: pending_world_def armed_world_def)
  have recv: "recv_fd None (out (ports (cdata ?w) ! 0)) (set_active 0 0 ?w)
      = Inr (6, taken 4 (fd_message 6) (set_active 0 0 ?w))"
    by code_simp
  have six: "(6::int) \<noteq> - 1" by simp
  have later: "\<forall>a \<in> set later_actions. \<not> is_client_cmd a"
    by (simp add: later_actions_def is_client_cmd_def)
  have run: "run quiet_host later_actions drained_world = Inr later_world"
    by code_simp
  have found: "fst (socketserver_getPort (cdata later_world) 0 False) = Some 0"
    by (simp add: socketserver_getPort_def default_port_def later_world_def drained_world_def)
  from guard_down_after_drain [OF quiet_host_scripts armed recv six first later run] found first run
  show ?thesis by simp
qed

text \<open>
  C9. The flag \<^verbatim>\<open>have_channel\<close> is 0 in every entry of every state the system can
  reach from the empty registry, whatever commands, callbacks, thread steps and events
  got it there: it starts at 0 and its only assignment stores 0. So a \<^verbatim>\<open>client\<close>
  registration for a registered port always takes the branch guarded by the flag: \<open>n\<close>
  registrations in a row create \<open>n\<close> further Tcl channels over the read end of the
  port and install \<open>n\<close> further channel handlers, and the flag is 0 afterwards.
\<close>


theorem have_channel_stays_zero:
  assumes scripts: "scripts_run h (\<lambda>c. True)"
    and reach: "run h as (initial_world (SOCKETSERVER_OBJECT_MAGIC h)) = Inr w"
    and client: "obj_str (objv ! 1) = ''client''"
      "(length objv = 5 \<and> obj_int (objv ! 3) = Some port) \<or> (length objv = 3 \<and> port = 0)"
    and found: "fst (socketserver_getPort (cdata w) port False) = Some d"
  shows "(\<forall>p \<in> set (ports (cdata w)). have_channel p = 0) \<and>
         (\<exists>w'. run h (replicate n (Command ip tid os objv)) w = Inr w' \<and>
            (\<forall>p \<in> set (ports (cdata w')). have_channel p = 0) \<and>
            tcl_channels w' = tcl_channels w @ replicate n (out (ports (cdata w) ! d)) \<and>
            handlers w' = handlers w @ map (\<lambda>k. (Suc (length (tcl_channels w) + k), d)) [0..<n])"
proof -
  have K: "flags_clear (SOCKETSERVER_OBJECT_MAGIC h) w"
    using scripts initial_flags_clear reach by (rule run_flags_clear)
  from found obtain cd where g: "socketserver_getPort (cdata w) port False = (Some d, cd)"
    by (cases "socketserver_getPort (cdata w) port False") simp
  from K have m: "object_magic (cdata w) = SOCKETSERVER_OBJECT_MAGIC h"
    and f: "\<forall>p \<in> set (ports (cdata w)). have_channel p = 0"
    by (simp_all add: flags_clear_def)
  from client_repeat [OF m f client g, of n ip tid os] f show ?thesis
    by (auto simp: flags_clear_def)
qed

theorem have_channel_stays_zero_witness:
  "run quiet_host [Command 1 1 (os_ok 3 4) server_8080] (initial_world 42) = Inr served_world \<and>
   (\<exists>w'. run quiet_host [Command 1 1 (os_ok 5 6) client_handler, Command 1 1 (os_ok 5 6) client_handler]
            served_world = Inr w' \<and>
         (\<forall>p \<in> set (ports (cdata w')). have_channel p = 0) \<and>
         tcl_channels w' = [4, 4] \<and> handlers w' = [(1, 0), (2, 0)])"
proof -
  have reach: "run quiet_host [Command 1 1 (os_ok 3 4) server_8080]
      (initial_world (SOCKETSERVER_OBJECT_MAGIC quiet_host)) = Inr served_world"
    by (simp add: step_def socketserverObjCmd_def server_register_def socketserver_getPort_def
        default_port_def link_port_def new_port_def zeroed_port_def update_port_def
        initial_world_def served_world_def server_8080_def word_def number_def os_ok_def
        quiet_host_def TCL_OK_def new_descriptor_def)
  have client: "obj_str (client_handler ! 1) = ''client''"
    "(length client_handler = 5 \<and> obj_int (client_handler ! 3) = Some 0) \<or>
     (length client_handler = 3 \<and> (0::int) = 0)"
    by (simp_all add: client_handler_def word_def)
  have found: "fst (socketserver_getPort (cdata served_world) 0 False) = Some 0"
    by (simp add: socketserver_getPort_def default_port_def served_world_def)
  have q: "SOCKETSERVER_OBJECT_MAGIC quiet_host = 42" by (simp add: quiet_host_def)
  from have_channel_stays_zero [OF quiet_host_scripts reach client found, of "Suc (Suc 0)" 1 1 "os_ok 5 6"]
    reach q
  show ?thesis by (simp add: served_world_def numeral_2_eq_2)
qed

end
